theory Spec2Isabelle
  imports Complex_Main "HOL-Library.Word" "HOL-Library.Stream" "HOL-Library.Monad_Syntax"
begin

section \<open>Python strings\<close>

text \<open>
  A Python \<^verbatim>\<open>str\<close> is a sequence of Unicode code points, so a string is a list of
  natural numbers and \<open>length\<close> counts what \<^verbatim>\<open>len\<close> counts. A literal of the source is
  written \<open>py ''fix''\<close>: the code points of its (ASCII) characters.
\<close>

type_synonym ustr = "nat list"

abbreviation (input) py :: "string \<Rightarrow> ustr" where
  "py s \<equiv> map of_char s"

text \<open>
  The string methods and the class \<^verbatim>\<open>\w\<close> consult the Unicode character database,
  which is no part of the source. On the ASCII range (code points below 128) what they do
  is written out below. Above it the database is a parameter \<open>U\<close> of every function
  that depends on it, so a theorem about all \<open>U\<close> holds for the database Python ships:
  \<^item> \<open>ucd_isalpha\<close>, \<open>ucd_isupper\<close>, \<open>ucd_islower\<close>, \<open>ucd_istitle\<close>: the tests
    \<^verbatim>\<open>isalpha\<close>, \<^verbatim>\<open>isupper\<close>, \<^verbatim>\<open>islower\<close> and \<^verbatim>\<open>istitle\<close> of one character;
  \<^item> \<open>ucd_isword\<close>: whether the character is in \<^verbatim>\<open>\w\<close>;
  \<^item> \<open>ucd_lower s i\<close>: the lower-case form of the character at position \<open>i\<close> of \<open>s\<close>
    (one or more characters; the string is given because the form of a capital sigma
    depends on its neighbours);
  \<^item> \<open>ucd_upper\<close>, \<open>ucd_title\<close>: the upper-case and title-case forms of a character.
\<close>

record ucd =
  ucd_isalpha :: "nat \<Rightarrow> bool"
  ucd_isupper :: "nat \<Rightarrow> bool"
  ucd_islower :: "nat \<Rightarrow> bool"
  ucd_istitle :: "nat \<Rightarrow> bool"
  ucd_isword :: "nat \<Rightarrow> bool"
  ucd_lower :: "ustr \<Rightarrow> nat \<Rightarrow> ustr"
  ucd_upper :: "nat \<Rightarrow> ustr"
  ucd_title :: "nat \<Rightarrow> ustr"

text \<open>
  A database that knows nothing above the ASCII range: no character there is a letter,
  cased or a word character, and each is its own lower-case, upper-case and title-case
  form. It stands where a closed statement needs some database.
\<close>

definition ascii_only :: ucd where
  "ascii_only =
     \<lparr>ucd_isalpha = (\<lambda>c. False), ucd_isupper = (\<lambda>c. False), ucd_islower = (\<lambda>c. False),
      ucd_istitle = (\<lambda>c. False), ucd_isword = (\<lambda>c. False),
      ucd_lower = (\<lambda>s i. [s ! i]), ucd_upper = (\<lambda>c. [c]), ucd_title = (\<lambda>c. [c])\<rparr>"

text \<open>
  A database that knows one character above the ASCII range, the Kelvin sign U+212A: as
  in Python's database it is an upper-case letter and a word character, and its
  lower-case form is the ASCII letter "k".
\<close>

definition kelvin_sign :: ucd where
  "kelvin_sign =
     \<lparr>ucd_isalpha = (\<lambda>c. c = 8490), ucd_isupper = (\<lambda>c. c = 8490), ucd_islower = (\<lambda>c. False),
      ucd_istitle = (\<lambda>c. False), ucd_isword = (\<lambda>c. c = 8490),
      ucd_lower = (\<lambda>s i. if s ! i = 8490 then py ''k'' else [s ! i]),
      ucd_upper = (\<lambda>c. [c]), ucd_title = (\<lambda>c. [c])\<rparr>"

text \<open>The ASCII letters and digits, and the case mappings of ASCII characters.\<close>

definition a_isupper :: "nat \<Rightarrow> bool" where
  "a_isupper c = (65 \<le> c \<and> c \<le> 90)"

definition a_islower :: "nat \<Rightarrow> bool" where
  "a_islower c = (97 \<le> c \<and> c \<le> 122)"

definition a_isdigit :: "nat \<Rightarrow> bool" where
  "a_isdigit c = (48 \<le> c \<and> c \<le> 57)"

definition a_lower :: "nat \<Rightarrow> nat" where
  "a_lower c = (if a_isupper c then c + 32 else c)"

definition a_upper :: "nat \<Rightarrow> nat" where
  "a_upper c = (if a_islower c then c - 32 else c)"

text \<open>The tests of one character: ASCII as written out, the database above it.\<close>

definition c_isupper :: "ucd \<Rightarrow> nat \<Rightarrow> bool" where
  "c_isupper U c = (if c < 128 then a_isupper c else ucd_isupper U c)"

definition c_islower :: "ucd \<Rightarrow> nat \<Rightarrow> bool" where
  "c_islower U c = (if c < 128 then a_islower c else ucd_islower U c)"

text \<open>No ASCII character is a title-case character.\<close>

definition c_istitle :: "ucd \<Rightarrow> nat \<Rightarrow> bool" where
  "c_istitle U c = (if c < 128 then False else ucd_istitle U c)"

definition c_isalpha :: "ucd \<Rightarrow> nat \<Rightarrow> bool" where
  "c_isalpha U c = (if c < 128 then a_isupper c \<or> a_islower c else ucd_isalpha U c)"

text \<open>
  The class \<^verbatim>\<open>\w\<close> of the \<^verbatim>\<open>re\<close> module for a \<^verbatim>\<open>str\<close> pattern: in ASCII the
  letters, the digits and the underscore.
\<close>

definition c_isword :: "ucd \<Rightarrow> nat \<Rightarrow> bool" where
  "c_isword U c =
     (if c < 128 then a_isupper c \<or> a_islower c \<or> a_isdigit c \<or> c = 95 else ucd_isword U c)"

text \<open>
  Whitespace as \<^verbatim>\<open>str.split()\<close> sees it: U+0009 to U+000D, U+001C to U+0020, U+0085,
  U+00A0, U+1680, U+2000 to U+200A, U+2028, U+2029, U+202F, U+205F and U+3000.
\<close>

definition c_isspace :: "nat \<Rightarrow> bool" where
  "c_isspace c =
     ((9 \<le> c \<and> c \<le> 13) \<or> (28 \<le> c \<and> c \<le> 32) \<or> c = 133 \<or> c = 160 \<or> c = 5760 \<or>
      (8192 \<le> c \<and> c \<le> 8202) \<or> c = 8232 \<or> c = 8233 \<or> c = 8239 \<or> c = 8287 \<or> c = 12288)"

text \<open>
  \<^verbatim>\<open>str.lower()\<close>: every character is replaced by its lower-case form. \<open>lower_from U s i cs\<close>
  lowers the characters \<open>cs\<close> that start at position \<open>i\<close> of \<open>s\<close>.
\<close>

fun lower_from :: "ucd \<Rightarrow> ustr \<Rightarrow> nat \<Rightarrow> ustr \<Rightarrow> ustr" where
  "lower_from U s i [] = []"
| "lower_from U s i (c # cs) =
     (if c < 128 then [a_lower c] else ucd_lower U s i) @ lower_from U s (Suc i) cs"

definition py_lower :: "ucd \<Rightarrow> ustr \<Rightarrow> ustr" where
  "py_lower U s = lower_from U s 0 s"

text \<open>\<^verbatim>\<open>str.upper()\<close>: every character is replaced by its upper-case form.\<close>

definition py_upper :: "ucd \<Rightarrow> ustr \<Rightarrow> ustr" where
  "py_upper U s = concat (map (\<lambda>c. if c < 128 then [a_upper c] else ucd_upper U c) s)"

text \<open>
  \<^verbatim>\<open>str.capitalize()\<close>: the first character in its title-case form (for an ASCII
  character its upper-case form), the rest of the string lower-cased.
\<close>

fun py_capitalize :: "ucd \<Rightarrow> ustr \<Rightarrow> ustr" where
  "py_capitalize U [] = []"
| "py_capitalize U (c # cs) =
     (if c < 128 then [a_upper c] else ucd_title U c) @ lower_from U (c # cs) 1 cs"

text \<open>\<^verbatim>\<open>str.isalpha()\<close>: at least one character, and every character a letter.\<close>

definition py_isalpha :: "ucd \<Rightarrow> ustr \<Rightarrow> bool" where
  "py_isalpha U s = (s \<noteq> [] \<and> list_all (c_isalpha U) s)"

text \<open>
  \<^verbatim>\<open>str.isupper()\<close>, as CPython computes it: a string of one character is tested by
  that character; otherwise there is an upper-case character and no lower-case or
  title-case character. Characters without case (digits, punctuation) do not count
  either way.
\<close>

fun py_isupper :: "ucd \<Rightarrow> ustr \<Rightarrow> bool" where
  "py_isupper U [c] = c_isupper U c"
| "py_isupper U s =
     (list_ex (c_isupper U) s \<and> \<not> list_ex (\<lambda>c. c_islower U c \<or> c_istitle U c) s)"

text \<open>
  \<^verbatim>\<open>str.istitle()\<close>, as CPython scans it: an upper-case or title-case character may
  only follow an uncased one, a lower-case character only a cased one, and there is a
  cased character. The first argument after the database says whether the previous
  character was cased, the second whether a cased character has been seen.
\<close>

fun istitle_scan :: "ucd \<Rightarrow> bool \<Rightarrow> bool \<Rightarrow> ustr \<Rightarrow> bool" where
  "istitle_scan U prev cased [] = cased"
| "istitle_scan U prev cased (c # cs) =
     (if c_isupper U c \<or> c_istitle U c then (if prev then False else istitle_scan U True True cs)
      else if c_islower U c then (if prev then istitle_scan U True True cs else False)
      else istitle_scan U False cased cs)"

definition py_istitle :: "ucd \<Rightarrow> ustr \<Rightarrow> bool" where
  "py_istitle U s = istitle_scan U False False s"

definition py_endswith :: "ustr \<Rightarrow> ustr \<Rightarrow> bool" where
  "py_endswith s suffix = (length suffix \<le> length s \<and> drop (length s - length suffix) s = suffix)"

definition py_startswith :: "ustr \<Rightarrow> ustr \<Rightarrow> bool" where
  "py_startswith s prefix = (take (length prefix) s = prefix)"

section \<open>The inflector\<close>

text \<open>
  \<^verbatim>\<open>apply_inflection(replacement, original)\<close>: the suffix is chosen by the
  \<^verbatim>\<open>if/elif/elif\<close> chain on the lower-cased original, the casing by the original itself.
\<close>

definition apply_inflection :: "ucd \<Rightarrow> ustr \<Rightarrow> ustr \<Rightarrow> ustr" where
  "apply_inflection U replacement original =
     (let lower = py_lower U original;
          replacement =
            (if py_endswith lower (py ''ing'') then replacement @ py ''ing''
             else if py_endswith lower (py ''ed'') then replacement @ py ''ed''
             else if py_endswith lower (py ''s'') \<and> \<not> py_endswith lower (py ''ss'')
               then replacement @ py ''s''
             else replacement)
      in if py_isupper U original then py_upper U replacement
         else if py_istitle U original then py_capitalize U replacement
         else replacement)"

section \<open>The lexicon\<close>

text \<open>
  The category sets of the source, literal by literal and in the source's order (a
  literal that the source repeats is repeated here). The third exclamation is written by
  its code points 111, 111, 112, 115.
\<close>

definition VERBS :: "ustr set" where
  "VERBS = {
    py ''fix'', py ''use'', py ''try'', py ''run'', py ''make'', py ''build'',
    py ''break'', py ''work'', py ''get'', py ''open'', py ''close'', py ''start'',
    py ''stop'', py ''install'', py ''update'', py ''write'', py ''read'', py ''create'',
    py ''test'', py ''save'', py ''remove'', py ''delete'', py ''move'', py ''copy'',
    py ''push'', py ''pull'', py ''deploy'', py ''debug'', py ''submit'', py ''sync'',
    py ''compile'', py ''reboot'', py ''configure'', py ''clone'', py ''publish'',
    py ''see'', py ''take'', py ''give'', py ''find'', py ''call'', py ''help'',
    py ''ask'', py ''know'', py ''need'', py ''show'', py ''leave'', py ''come'',
    py ''look'', py ''tell'', py ''want'', py ''put'', py ''bring'', py ''play'',
    py ''speak'', py ''learn'', py ''live'', py ''smile'', py ''believe'', py ''follow'',
    py ''carry'', py ''become'', py ''remember'', py ''love'', py ''hate'', py ''eat'',
    py ''drink'', py ''sleep'', py ''walk'', py ''sit'', py ''stand'', py ''entertain'',
    py ''sing'', py ''dance'', py ''dream'', py ''fight'', py ''shout'', py ''whisper'',
    py ''laugh'', py ''cry'', py ''hope'', py ''plan'', py ''smurf''}"

definition NOUNS :: "ustr set" where
  "NOUNS = {
    py ''tool'', py ''thing'', py ''plan'', py ''idea'', py ''bug'', py ''code'',
    py ''file'', py ''script'', py ''device'', py ''command'', py ''folder'', py ''line'',
    py ''project'', py ''task'', py ''feature'', py ''issue'', py ''input'', py ''output'',
    py ''program'', py ''proposal'', py ''workflow'', py ''pipeline'', py ''repo'',
    py ''package'', py ''module'', py ''service'', py ''container'', py ''turtle'',
    py ''timeline'', py ''cloud'', py ''feedback'', py ''platform'', py ''windows'',
    py ''mac'', py ''linux'', py ''time'', py ''day'', py ''night'', py ''man'',
    py ''woman'', py ''child'', py ''world'', py ''life'', py ''hand'', py ''eye'',
    py ''place'', py ''work'', py ''year'', py ''friend'', py ''family'', py ''house'',
    py ''name'', py ''school'', py ''story'', py ''water'', py ''fire'', py ''earth'',
    py ''air'', py ''city'', py ''village'', py ''river'', py ''road'', py ''table'',
    py ''book'', py ''letter'', py ''voice'', py ''language'', py ''song'', py ''truth'',
    py ''order'', py ''union'', py ''justice''}"

definition ADJECTIVES :: "ustr set" where
  "ADJECTIVES = {
    py ''good'', py ''bad'', py ''broken'', py ''awesome'', py ''clever'', py ''smart'',
    py ''dumb'', py ''quick'', py ''slow'', py ''ugly'', py ''useful'', py ''confusing'',
    py ''weird'', py ''helpful'', py ''nice'', py ''simple'', py ''hard'', py ''cool'',
    py ''agile'', py ''responsive'', py ''big'', py ''small'', py ''long'', py ''short'',
    py ''happy'', py ''sad'', py ''easy'', py ''new'', py ''old'', py ''young'',
    py ''strong'', py ''weak'', py ''bright'', py ''dark'', py ''loud'', py ''quiet'',
    py ''fast'', py ''slow'', py ''simple'', py ''complex'', py ''early'', py ''late'',
    py ''warm'', py ''cold''}"

definition EXCLAIMS :: "ustr set" where
  "EXCLAIMS = {
    py ''wow'', py ''yay'', [111, 111, 112, 115], py ''hey'', py ''yeah'', py ''woo'', py ''whoa'',
    py ''huh'', py ''ugh'', py ''nope'', py ''nice'', py ''heck'', py ''hell'',
    py ''damn'', py ''darn'', py ''crap'', py ''woot''}"

definition CONNECTORS :: "ustr set" where
  "CONNECTORS = {
    py ''and'', py '',''}"

section \<open>The random source\<close>

text \<open>
  \<^verbatim>\<open>random.random()\<close> returns a float \<open>k / 2^53\<close> for a 53-bit integer \<open>k\<close>, so it is
  at least 0 and below 1. The generator's state is the stream of the draws still to
  come; a draw takes the head. A float is a rational number and \<^verbatim>\<open><\<close> compares the
  values exactly, so draws and thresholds are rationals.
\<close>

type_synonym draw = "53 word"

type_synonym rng = "draw stream"

definition draw_value :: "draw \<Rightarrow> rat" where
  "draw_value k = of_nat (unat k) / 2 ^ 53"

definition py_random :: "rng \<Rightarrow> rat \<times> rng" where
  "py_random rng = (draw_value (shd rng), stl rng)"

text \<open>
  \<^verbatim>\<open>CHAOS_CHANCE = 0.05\<close>: the value of the double nearest to 0.05, which is
  \<open>3602879701896397 / 2^56\<close>. The functions below take the constant as their first
  argument, as the source reads the module's global when it is called.
\<close>

definition CHAOS_CHANCE :: rat where
  "CHAOS_CHANCE = 3602879701896397 / 2 ^ 56"

section \<open>The word transformer\<close>

text \<open>
  \<^verbatim>\<open>smurfify_base(base)\<close>. The draw is taken only when the word is in no category and
  \<^verbatim>\<open>base.isalpha()\<close> holds (\<^verbatim>\<open>and\<close> evaluates its right operand only then).
\<close>

definition smurfify_base :: "ucd \<Rightarrow> rat \<Rightarrow> ustr \<Rightarrow> rng \<Rightarrow> ustr \<times> rng" where
  "smurfify_base U chaos base rng =
     (let lower = py_lower U base in
      if lower \<in> VERBS \<or> lower \<in> NOUNS then (apply_inflection U (py ''smurf'') base, rng)
      else if lower \<in> ADJECTIVES then (apply_inflection U (py ''smurfy'') base, rng)
      else if lower \<in> EXCLAIMS then (py ''Smurf!'', rng)
      else if py_isalpha U base then
        (let (x, rng') = py_random rng in
         if x < chaos then (apply_inflection U (py ''smurf'') base, rng') else (base, rng'))
      else (base, rng))"

text \<open>
  The pattern \<^verbatim>\<open>^([\w\-]+)([.,!?;:'\"`]*)$\<close> under \<^verbatim>\<open>re.match\<close>. The two character
  classes are disjoint, so the greedy first group is the longest prefix of word
  characters and hyphens and the second group the punctuation that follows; \<^verbatim>\<open>$\<close>
  matches at the end of the string and also before one final line feed.
\<close>

definition c_isbase :: "ucd \<Rightarrow> nat \<Rightarrow> bool" where
  "c_isbase U c = (c_isword U c \<or> c = 45)"

definition c_ispunct :: "nat \<Rightarrow> bool" where
  "c_ispunct c =
     (c = 46 \<or> c = 44 \<or> c = 33 \<or> c = 63 \<or> c = 59 \<or> c = 58 \<or> c = 39 \<or> c = 34 \<or> c = 96)"

definition re_match_word :: "ucd \<Rightarrow> ustr \<Rightarrow> (ustr \<times> ustr) option" where
  "re_match_word U word =
     (let base = takeWhile (c_isbase U) word;
          after = dropWhile (c_isbase U) word;
          punct = takeWhile c_ispunct after;
          tail = dropWhile c_ispunct after
      in if base \<noteq> [] \<and> (tail = [] \<or> tail = [10]) then Some (base, punct) else None)"

text \<open>\<^verbatim>\<open>s.split(sep)\<close> for a one-character separator, and \<^verbatim>\<open>sep.join(parts)\<close>.\<close>

fun py_split_on :: "nat \<Rightarrow> ustr \<Rightarrow> ustr list" where
  "py_split_on sep [] = [[]]"
| "py_split_on sep (c # cs) =
     (if c = sep then [] # py_split_on sep cs
      else (case py_split_on sep cs of
              [] \<Rightarrow> [[c]]
            | p # ps \<Rightarrow> (c # p) # ps))"

fun py_join :: "ustr \<Rightarrow> ustr list \<Rightarrow> ustr" where
  "py_join sep [] = []"
| "py_join sep [x] = x"
| "py_join sep (x # y # ys) = x @ sep @ py_join sep (y # ys)"

text \<open>
  The list comprehension \<^verbatim>\<open>[smurfify_base(part) for part in ...]\<close>: the parts are
  transformed from left to right, each with the generator the previous one left.
\<close>

fun smurfify_parts :: "ucd \<Rightarrow> rat \<Rightarrow> ustr list \<Rightarrow> rng \<Rightarrow> ustr list \<times> rng" where
  "smurfify_parts U chaos [] rng = ([], rng)"
| "smurfify_parts U chaos (part # parts) rng =
     (let (s, rng1) = smurfify_base U chaos part rng;
          (ss, rng2) = smurfify_parts U chaos parts rng1
      in (s # ss, rng2))"

definition smurfify_word :: "ucd \<Rightarrow> rat \<Rightarrow> ustr \<Rightarrow> rng \<Rightarrow> ustr \<times> rng" where
  "smurfify_word U chaos word rng =
     (case re_match_word U word of
        None \<Rightarrow> (word, rng)
      | Some (base, punct) \<Rightarrow>
          (let (smurfed_parts, rng') = smurfify_parts U chaos (py_split_on 45 base) rng
           in (py_join [45] smurfed_parts @ punct, rng')))"

definition is_smurfed :: "ucd \<Rightarrow> ustr \<Rightarrow> bool" where
  "is_smurfed U word = py_startswith (py_lower U word) (py ''smurf'')"

section \<open>The line transformer\<close>

text \<open>
  \<^verbatim>\<open>line.split()\<close>: leading whitespace is skipped, the characters up to the next
  whitespace are a word, and so on to the end of the line.
\<close>

function py_split :: "ustr \<Rightarrow> ustr list" where
  "py_split s =
     (case dropWhile c_isspace s of
        [] \<Rightarrow> []
      | c # cs \<Rightarrow>
          takeWhile (\<lambda>x. \<not> c_isspace x) (c # cs)
            # py_split (dropWhile (\<lambda>x. \<not> c_isspace x) (c # cs)))"
  by pat_completeness auto

lemma length_dropWhile_after_word:
  assumes "dropWhile c_isspace s = c # cs"
  shows "length (dropWhile (\<lambda>x. \<not> c_isspace x) (c # cs)) < length s"
proof -
  have "\<not> c_isspace (hd (dropWhile c_isspace s))"
    using assms hd_dropWhile [of c_isspace s] by simp
  then have "\<not> c_isspace c"
    using assms by simp
  then have "length (dropWhile (\<lambda>x. \<not> c_isspace x) (c # cs)) \<le> length cs"
    by (simp add: length_dropWhile_le)
  moreover have "length (c # cs) \<le> length s"
    using length_dropWhile_le [of c_isspace s] assms by simp
  ultimately show ?thesis by simp
qed

termination py_split
  by (relation "measure length") (simp_all del: dropWhile.simps add: length_dropWhile_after_word)

text \<open>
  \<^verbatim>\<open>words[k]\<close>: an index beyond the list raises \<^verbatim>\<open>IndexError\<close>, which is the value
  \<open>None\<close>. The loop's indices are never negative.
\<close>

definition py_index :: "'a list \<Rightarrow> nat \<Rightarrow> 'a option" where
  "py_index xs k = (if k < length xs then Some (xs ! k) else None)"

text \<open>\<^verbatim>\<open>re.sub(r"[^\w\-]", "", s)\<close>: every character that is no word character or hyphen is removed.\<close>

definition strip_nonword :: "ucd \<Rightarrow> ustr \<Rightarrow> ustr" where
  "strip_nonword U s = filter (c_isbase U) s"

text \<open>
  The condition of the "verb some noun" pattern at position \<open>i\<close>. \<^verbatim>\<open>and\<close> evaluates
  its operands from left to right and stops at the first false one, so a word is read
  only when the operands before it hold.
\<close>

definition idiom_window :: "ucd \<Rightarrow> ustr list \<Rightarrow> nat \<Rightarrow> bool option" where
  "idiom_window U words i =
     (if i + 2 < length words then
        do {
          w1 \<leftarrow> py_index words (i + 1);
          if py_lower U w1 = py ''some'' then
            do {
              w0 \<leftarrow> py_index words i;
              if strip_nonword U (py_lower U w0) \<in> VERBS then
                do {
                  w2 \<leftarrow> py_index words (i + 2);
                  Some (strip_nonword U (py_lower U w2) \<in> NOUNS)
                }
              else Some False
            }
          else Some False
        }
      else Some False)"

text \<open>
  The body of the pattern: one draw decides which of the two words is transformed; the
  word between them is emitted as the literal \<^verbatim>\<open>"some"\<close>. The result is the tokens
  appended to \<^verbatim>\<open>result\<close>, the new value of \<^verbatim>\<open>i\<close> and the generator.
\<close>

definition idiom_rule :: "ucd \<Rightarrow> rat \<Rightarrow> ustr list \<Rightarrow> nat \<Rightarrow> rng \<Rightarrow> (ustr list \<times> nat \<times> rng) option" where
  "idiom_rule U chaos words i rng =
     do {
       verb \<leftarrow> py_index words i;
       noun \<leftarrow> py_index words (i + 2);
       let (x, rng1) = py_random rng in
       if x < 1 / 2 then
         (let (s, rng2) = smurfify_word U chaos verb rng1
          in Some ([s, py ''some'', noun], i + 3, rng2))
       else
         (let (s, rng2) = smurfify_word U chaos noun rng1
          in Some ([verb, py ''some'', s], i + 3, rng2))
     }"

text \<open>The condition of the connector block at position \<open>i\<close>.\<close>

definition connector_window :: "ucd \<Rightarrow> ustr list \<Rightarrow> nat \<Rightarrow> bool option" where
  "connector_window U words i =
     (if i + 2 < length words then
        do {
          w1 \<leftarrow> py_index words (i + 1);
          Some (py_lower U w1 \<in> CONNECTORS)
        }
      else Some False)"

text \<open>
  The connector block. Both neighbours are transformed first (\<^verbatim>\<open>s1\<close>, then \<^verbatim>\<open>s2\<close>,
  each taking its draws). When both results are smurfed a further draw decides which one
  is kept, three tokens are emitted and \<^verbatim>\<open>i\<close> advances by three: the result is
  \<open>Some\<close> of the tokens and the new index. Otherwise the block falls through: the
  result is \<open>None\<close>, with the generator as the two transformations left it.
\<close>

definition connector_rule :: "ucd \<Rightarrow> rat \<Rightarrow> ustr list \<Rightarrow> nat \<Rightarrow> rng \<Rightarrow> ((ustr list \<times> nat) option \<times> rng) option" where
  "connector_rule U chaos words i rng =
     do {
       w1 \<leftarrow> py_index words i;
       w2 \<leftarrow> py_index words (i + 2);
       let (s1, rng1) = smurfify_word U chaos w1 rng;
           (s2, rng2) = smurfify_word U chaos w2 rng1 in
       if is_smurfed U s1 \<and> is_smurfed U s2 then
         (let (x, rng3) = py_random rng2 in
          do {
            c \<leftarrow> py_index words (i + 1);
            if x < 1 / 2 then Some (Some ([s1, c, w2], i + 3), rng3)
            else Some (Some ([w1, c, s2], i + 3), rng3)
          })
       else Some (None, rng2)
     }"

text \<open>The normal word: \<^verbatim>\<open>result.append(smurfify_word(words[i])); i += 1\<close>.\<close>

definition normal_word :: "ucd \<Rightarrow> rat \<Rightarrow> ustr list \<Rightarrow> nat \<Rightarrow> rng \<Rightarrow> (ustr list \<times> nat \<times> rng) option" where
  "normal_word U chaos words i rng =
     do {
       w \<leftarrow> py_index words i;
       let (s, rng1) = smurfify_word U chaos w rng in
       Some ([s], i + 1, rng1)
     }"

text \<open>
  One pass through the body of the \<^verbatim>\<open>while\<close> loop at position \<open>i\<close>: the tokens
  appended to \<^verbatim>\<open>result\<close>, the new value of \<^verbatim>\<open>i\<close> and the generator.
\<close>

definition smurfify_step :: "ucd \<Rightarrow> rat \<Rightarrow> ustr list \<Rightarrow> nat \<Rightarrow> rng \<Rightarrow> (ustr list \<times> nat \<times> rng) option" where
  "smurfify_step U chaos words i rng =
     do {
       idiom \<leftarrow> idiom_window U words i;
       if idiom then idiom_rule U chaos words i rng
       else
         do {
           conn \<leftarrow> connector_window U words i;
           if conn then
             do {
               (r, rng2) \<leftarrow> connector_rule U chaos words i rng;
               (case r of
                  Some (out, next) \<Rightarrow> Some (out, next, rng2)
                | None \<Rightarrow> normal_word U chaos words i rng2)
             }
           else normal_word U chaos words i rng
         }
     }"

lemma smurfify_step_advances:
  assumes "smurfify_step U chaos words i rng = Some (out, next, rng')"
  shows "i < next"
  using assms
  by (auto simp: smurfify_step_def idiom_rule_def connector_rule_def normal_word_def Let_def
      split: Option.bind_splits if_splits prod.splits option.splits)

text \<open>The \<^verbatim>\<open>while i < len(words)\<close> loop.\<close>

function smurfify_loop :: "ucd \<Rightarrow> rat \<Rightarrow> ustr list \<Rightarrow> nat \<Rightarrow> ustr list \<Rightarrow> rng \<Rightarrow> (ustr list \<times> rng) option" where
  "smurfify_loop U chaos words i result rng =
     (if i < length words then
        (case smurfify_step U chaos words i rng of
           None \<Rightarrow> None
         | Some (out, next, rng') \<Rightarrow> smurfify_loop U chaos words next (result @ out) rng')
      else Some (result, rng))"
  by pat_completeness auto

termination smurfify_loop
proof (relation "measure (\<lambda>(U, chaos, words, i, result, rng). length words - i)")
  show "wf (measure (\<lambda>(U, chaos, words, i, result, rng). length words - i))"
    by simp
next
  fix U :: ucd and chaos :: rat and words :: "ustr list" and i :: nat and result :: "ustr list"
    and rng :: rng and x2 out y j rng'
  assume "i < length words" and "smurfify_step U chaos words i rng = Some x2"
    and "(out, y) = x2" and "(j, rng') = y"
  then have "i < j"
    using smurfify_step_advances [of U chaos words i rng out j rng'] by simp
  with \<open>i < length words\<close>
  show "((U, chaos, words, j, result @ out, rng'), (U, chaos, words, i, result, rng))
        \<in> measure (\<lambda>(U, chaos, words, i, result, rng). length words - i)"
    by simp
qed

text \<open>\<^verbatim>\<open>smurfify_line(line)\<close>: the words of the line, transformed and joined by one space.\<close>

definition smurfify_line :: "ucd \<Rightarrow> rat \<Rightarrow> ustr \<Rightarrow> rng \<Rightarrow> (ustr \<times> rng) option" where
  "smurfify_line U chaos line rng =
     do {
       (result, rng') \<leftarrow> smurfify_loop U chaos (py_split line) 0 [] rng;
       Some (py_join (py '' '') result, rng')
     }"

text \<open>
  The inflector as the specification words it, to be compared with the source's: one
  suffix rule is selected from the lower-cased original in a fixed priority order, the
  selected suffix is appended to the stem, and the casing rule is applied last.
\<close>

datatype suffix_rule = Ing | Ed | Plural | NoSuffix

definition spec_suffix_rule :: "ustr \<Rightarrow> suffix_rule" where
  "spec_suffix_rule lowered =
     (if py_endswith lowered (py ''ing'') then Ing
      else if py_endswith lowered (py ''ed'') then Ed
      else if py_endswith lowered (py ''s'') \<and> \<not> py_endswith lowered (py ''ss'') then Plural
      else NoSuffix)"

fun suffix_text :: "suffix_rule \<Rightarrow> ustr" where
  "suffix_text Ing = py ''ing''"
| "suffix_text Ed = py ''ed''"
| "suffix_text Plural = py ''s''"
| "suffix_text NoSuffix = []"

datatype casing_rule = AllUpper | Title | AsProduced

definition spec_casing_rule :: "ucd \<Rightarrow> ustr \<Rightarrow> casing_rule" where
  "spec_casing_rule U original =
     (if py_isupper U original then AllUpper
      else if py_istitle U original then Title
      else AsProduced)"

fun apply_casing :: "ucd \<Rightarrow> casing_rule \<Rightarrow> ustr \<Rightarrow> ustr" where
  "apply_casing U AllUpper s = py_upper U s"
| "apply_casing U Title s = py_capitalize U s"
| "apply_casing U AsProduced s = s"

definition spec_inflect :: "ucd \<Rightarrow> ustr \<Rightarrow> ustr \<Rightarrow> ustr" where
  "spec_inflect U stem original =
     apply_casing U (spec_casing_rule U original)
       (stem @ suffix_text (spec_suffix_rule (py_lower U original)))"

subsection \<open>Tokens that no rule touches\<close>

text \<open>
  What the loop may emit for a word of the line: the word itself, the word transformed
  by \<open>smurfify_word\<close> at some state of the random source, or the literal "some" of the
  idiom rule, which stands for a word whose lower-case form is "some".
\<close>

definition emitted_for :: "ucd \<Rightarrow> rat \<Rightarrow> ustr \<Rightarrow> ustr \<Rightarrow> bool" where
  "emitted_for U chaos w out =
     (out = w \<or> (\<exists>r. out = fst (smurfify_word U chaos w r))
      \<or> (out = py ''some'' \<and> py_lower U w = py ''some''))"

text \<open>
  The tokens the specification says pass through: a token that does not match the
  pattern of \<open>smurfify_word\<close>, and a matching token whose base has no alphabetic part
  between its hyphens (for a base without a hyphen: a base that is not alphabetic).
\<close>

definition passes_unchanged :: "ucd \<Rightarrow> ustr \<Rightarrow> bool" where
  "passes_unchanged U t =
     (case re_match_word U t of
        None \<Rightarrow> True
      | Some (base, punct) \<Rightarrow> list_all (\<lambda>p. \<not> py_isalpha U p) (py_split_on 45 base))"

text \<open>
  A property of Python's database, stated for the parameter: a character above ASCII
  whose lower-case form is made of ASCII lower-case letters only is alphabetic and a
  word character. In Python's database the Kelvin sign U+212A, lowered to "k", is the
  only such character, and no character has an empty lower-case form. A database
  without the property could lower a character that is no letter to a word of the
  lexicon.
\<close>

definition case_sound :: "ucd \<Rightarrow> bool" where
  "case_sound U =
     (\<forall>s i. i < length s \<and> 128 \<le> s ! i \<and> list_all a_islower (ucd_lower U s i)
            \<longrightarrow> ucd_isalpha U (s ! i) \<and> ucd_isword U (s ! i))"

section \<open>Evaluation and auxiliary facts\<close>

lemmas char_class_defs =
  a_isupper_def a_islower_def a_isdigit_def a_lower_def a_upper_def
  c_isupper_def c_islower_def c_istitle_def c_isalpha_def c_isword_def

lemmas py_str_defs =
  py_lower_def py_upper_def py_isalpha_def py_istitle_def py_endswith_def py_startswith_def

lemmas word_eval =
  smurfify_word_def re_match_word_def c_isbase_def c_ispunct_def smurfify_base_def
  VERBS_def NOUNS_def ADJECTIVES_def EXCLAIMS_def py_str_defs char_class_defs
  apply_inflection_def py_random_def

declare smurfify_loop.simps [simp del]

declare py_split.simps [simp del]

lemmas line_eval =
  smurfify_line_def smurfify_loop.simps smurfify_step_def idiom_window_def idiom_rule_def
  connector_window_def connector_rule_def normal_word_def py_index_def strip_nonword_def
  is_smurfed_def CONNECTORS_def py_split.simps c_isspace_def

subsection \<open>The random source\<close>

lemma draw_value_range: "0 \<le> draw_value k \<and> draw_value k < 1"
proof -
  have "unat k < 2 ^ 53"
    using unsigned_less [of k] by simp
  then have upper: "(of_nat (unat k) :: rat) < 2 ^ 53"
    by (metis of_nat_less_iff of_nat_numeral of_nat_power)
  have lower: "(0 :: rat) \<le> of_nat (unat k)"
    by (rule of_nat_0_le_iff)
  from lower upper show ?thesis
    by (simp add: draw_value_def)
qed

lemma draw_value_half: "draw_value 4503599627370496 = 1 / 2"
  by (simp add: draw_value_def)

lemma draw_value_zero: "draw_value 0 = 0"
  by (simp add: draw_value_def)

subsection \<open>The lexicon holds lower-case ASCII words only\<close>

lemma VERBS_lower: "\<forall>w \<in> VERBS. w \<noteq> [] \<and> list_all a_islower w"
  unfolding VERBS_def by (simp add: a_islower_def)

lemma NOUNS_lower: "\<forall>w \<in> NOUNS. w \<noteq> [] \<and> list_all a_islower w"
  unfolding NOUNS_def by (simp add: a_islower_def)

lemma ADJECTIVES_lower: "\<forall>w \<in> ADJECTIVES. w \<noteq> [] \<and> list_all a_islower w"
  unfolding ADJECTIVES_def by (simp add: a_islower_def)

lemma EXCLAIMS_lower: "\<forall>w \<in> EXCLAIMS. w \<noteq> [] \<and> list_all a_islower w"
  unfolding EXCLAIMS_def by (simp add: a_islower_def)

lemma lexicon_lower:
  assumes "w \<in> VERBS \<union> NOUNS \<union> ADJECTIVES \<union> EXCLAIMS"
  shows "w \<noteq> [] \<and> list_all a_islower w"
  using assms VERBS_lower NOUNS_lower ADJECTIVES_lower EXCLAIMS_lower by blast

subsection \<open>Lower-casing\<close>

text \<open>On a string of ASCII characters \<^verbatim>\<open>lower\<close> is the ASCII mapping, whatever the database.\<close>

lemma lower_from_ascii:
  assumes "list_all (\<lambda>c. c < 128) cs"
  shows "lower_from U s i cs = map a_lower cs"
  using assms by (induction cs arbitrary: i) simp_all

lemma py_lower_ascii:
  assumes "list_all (\<lambda>c. c < 128) s"
  shows "py_lower U s = map a_lower s"
  using assms by (simp add: py_lower_def lower_from_ascii)

text \<open>An ASCII character of a string has its ASCII lower-case form in the lower-cased string.\<close>

lemma lower_from_keeps_ascii:
  assumes "c \<in> set cs" and "c < 128"
  shows "a_lower c \<in> set (lower_from U s i cs)"
  using assms by (induction cs arbitrary: i) auto

lemma a_lower_islower: "a_islower (a_lower c) \<Longrightarrow> a_isupper c \<or> a_islower c"
  by (auto simp: a_lower_def a_islower_def a_isupper_def split: if_splits)

text \<open>An ASCII string whose lower-case form is in a category set is alphabetic.\<close>

lemma classified_isalpha_ascii:
  assumes "list_all (\<lambda>c. c < 128) s"
    and "py_lower U s \<in> VERBS \<union> NOUNS \<union> ADJECTIVES \<union> EXCLAIMS"
  shows "py_isalpha U s"
proof -
  have low: "map a_lower s \<noteq> [] \<and> list_all a_islower (map a_lower s)"
    using lexicon_lower [OF assms(2)] py_lower_ascii [OF assms(1)] by simp
  then have "s \<noteq> []" by auto
  moreover have "list_all (c_isalpha U) s"
    using low assms(1) a_lower_islower
    by (auto simp: list_all_iff c_isalpha_def)
  ultimately show ?thesis
    by (simp add: py_isalpha_def)
qed

text \<open>A word whose lower-case form is in a category set has no hyphen.\<close>

lemma classified_no_hyphen:
  assumes "py_lower U s \<in> VERBS \<union> NOUNS \<union> ADJECTIVES \<union> EXCLAIMS"
  shows "45 \<notin> set s"
proof
  assume "45 \<in> set s"
  then have "a_lower 45 \<in> set (py_lower U s)"
    unfolding py_lower_def by (rule lower_from_keeps_ascii) simp
  moreover have "list_all a_islower (py_lower U s)"
    using lexicon_lower [OF assms] by simp
  ultimately have "a_islower (a_lower 45)"
    by (simp add: list_all_iff)
  then show False
    by (simp add: a_lower_def a_islower_def a_isupper_def)
qed

subsection \<open>Sub-words that are in no category and not alphabetic\<close>

lemma smurfify_base_untouched:
  assumes "py_lower U p \<notin> VERBS \<union> NOUNS \<union> ADJECTIVES \<union> EXCLAIMS" and "\<not> py_isalpha U p"
  shows "smurfify_base U chaos p rng = (p, rng)"
  using assms by (simp add: smurfify_base_def Let_def)

lemma smurfify_parts_untouched:
  assumes "list_all (\<lambda>p. py_lower U p \<notin> VERBS \<union> NOUNS \<union> ADJECTIVES \<union> EXCLAIMS
                          \<and> \<not> py_isalpha U p) parts"
  shows "smurfify_parts U chaos parts rng = (parts, rng)"
  using assms
  by (induction parts arbitrary: rng) (simp_all add: smurfify_base_untouched)

subsection \<open>Splitting at hyphens and joining\<close>

lemma py_split_on_nonempty: "py_split_on sep s \<noteq> []"
  by (induction s) (auto split: list.splits)

lemma py_join_cons_char: "py_join sep ((c # p) # ps) = c # py_join sep (p # ps)"
  by (cases ps) simp_all

lemma py_join_split_on: "py_join [sep] (py_split_on sep s) = s"
proof (induction s)
  case Nil
  show ?case by simp
next
  case (Cons c cs)
  obtain p ps where split: "py_split_on sep cs = p # ps"
    using py_split_on_nonempty [of sep cs] by (cases "py_split_on sep cs") auto
  with Cons show ?case
    by (simp add: py_join_cons_char)
qed

lemma py_split_on_absent:
  assumes "sep \<notin> set s"
  shows "py_split_on sep s = [s]"
  using assms by (induction s) auto

subsection \<open>Tokens of a line\<close>

lemma py_split_unfold:
  "py_split s =
     (case dropWhile c_isspace s of
        [] \<Rightarrow> []
      | c # cs \<Rightarrow>
          takeWhile (\<lambda>x. \<not> c_isspace x) (c # cs)
            # py_split (dropWhile (\<lambda>x. \<not> c_isspace x) (c # cs)))"
  by (rule py_split.simps)

lemma py_split_tokens:
  assumes "t \<in> set (py_split line)"
  shows "t \<noteq> [] \<and> \<not> list_ex c_isspace t"
  using assms
proof (induction line rule: py_split.induct)
  case (1 s)
  show ?case
  proof (cases "dropWhile c_isspace s")
    case Nil
    have "py_split s = []"
      by (subst py_split_unfold) (simp only: Nil list.case)
    with "1.prems" show ?thesis by simp
  next
    case (Cons c cs)
    have "\<not> c_isspace (hd (dropWhile c_isspace s))"
      using Cons hd_dropWhile [of c_isspace s] by simp
    with Cons have c: "\<not> c_isspace c" by simp
    let ?w = "takeWhile (\<lambda>x. \<not> c_isspace x) (c # cs)"
    let ?r = "dropWhile (\<lambda>x. \<not> c_isspace x) (c # cs)"
    have "py_split s = ?w # py_split ?r"
      by (subst py_split_unfold) (simp only: Cons list.case)
    with "1.prems" consider "t = ?w" | "t \<in> set (py_split ?r)"
      by auto
    then show ?thesis
    proof cases
      case 1
      have "\<And>x. x \<in> set ?w \<Longrightarrow> \<not> c_isspace x"
        by (rule set_takeWhileD [THEN conjunct2])
      moreover have "?w \<noteq> []"
        using c by simp
      ultimately show ?thesis
        using 1 by (auto simp: list_ex_iff simp del: takeWhile.simps)
    next
      case 2
      with "1.IH" [OF Cons] show ?thesis by blast
    qed
  qed
qed

lemma re_match_word_rejoin:
  assumes "re_match_word U t = Some (base, punct)" and "\<not> list_ex c_isspace t"
  shows "base @ punct = t"
proof -
  let ?after = "dropWhile (c_isbase U) t"
  let ?tail = "dropWhile c_ispunct ?after"
  have t: "t = takeWhile (c_isbase U) t @ takeWhile c_ispunct ?after @ ?tail"
    by simp
  have "set ?tail \<subseteq> set t"
    by (meson set_dropWhileD subsetI)
  moreover have "c_isspace 10" by (simp add: c_isspace_def)
  ultimately have "?tail \<noteq> [10]"
    using assms(2) by (auto simp: list_ex_iff)
  with assms(1) have "?tail = []" and "base = takeWhile (c_isbase U) t"
    and "punct = takeWhile c_ispunct ?after"
    by (auto simp: re_match_word_def Let_def split: if_splits)
  with t show ?thesis by simp
qed

subsection \<open>Prefix test\<close>

lemma py_startswith_iff: "py_startswith s p \<longleftrightarrow> (\<exists>rest. s = p @ rest)"
proof
  assume "py_startswith s p"
  then have "s = p @ drop (length p) s"
    by (metis append_take_drop_id py_startswith_def)
  then show "\<exists>rest. s = p @ rest" ..
next
  assume "\<exists>rest. s = p @ rest"
  then show "py_startswith s p"
    by (auto simp: py_startswith_def)
qed

subsection \<open>One pass through the loop body\<close>

lemma connector_not_some:
  assumes "w \<in> CONNECTORS"
  shows "w \<noteq> py ''some''"
  using assms by (auto simp: CONNECTORS_def)

lemma idiom_window_connector:
  assumes "i + 2 < length words" and "py_lower U (words ! (i + 1)) \<in> CONNECTORS"
  shows "idiom_window U words i = Some False"
  using assms connector_not_some [of "py_lower U (words ! (i + 1))"]
  by (simp add: idiom_window_def py_index_def)

lemma connector_window_connector:
  assumes "i + 2 < length words" and "py_lower U (words ! (i + 1)) \<in> CONNECTORS"
  shows "connector_window U words i = Some True"
  using assms by (simp add: connector_window_def py_index_def)

lemma connector_step_collision:
  assumes "i + 2 < length words" and "py_lower U (words ! (i + 1)) \<in> CONNECTORS"
    and "smurfify_word U chaos (words ! i) rng = (s1, rng1)"
    and "smurfify_word U chaos (words ! (i + 2)) rng1 = (s2, rng2)"
    and "is_smurfed U s1" and "is_smurfed U s2"
  shows "smurfify_step U chaos words i rng =
           Some (if draw_value (shd rng2) < 1 / 2 then [s1, words ! (i + 1), words ! (i + 2)]
                 else [words ! i, words ! (i + 1), s2],
                 i + 3, stl rng2)"
proof -
  have "connector_rule U chaos words i rng =
          Some (Some (if draw_value (shd rng2) < 1 / 2 then [s1, words ! (i + 1), words ! (i + 2)]
                      else [words ! i, words ! (i + 1), s2], i + 3), stl rng2)"
    using assms by (simp add: connector_rule_def py_index_def py_random_def)
  then show ?thesis
    using idiom_window_connector [OF assms(1,2)] connector_window_connector [OF assms(1,2)]
    by (simp add: smurfify_step_def)
qed

lemma connector_step_fallthrough:
  assumes "i + 2 < length words" and "py_lower U (words ! (i + 1)) \<in> CONNECTORS"
    and "smurfify_word U chaos (words ! i) rng = (s1, rng1)"
    and "smurfify_word U chaos (words ! (i + 2)) rng1 = (s2, rng2)"
    and "\<not> (is_smurfed U s1 \<and> is_smurfed U s2)"
    and "smurfify_word U chaos (words ! i) rng2 = (s, rng3)"
  shows "smurfify_step U chaos words i rng = Some ([s], i + 1, rng3)"
proof -
  have "connector_rule U chaos words i rng = Some (None, rng2)"
    using assms by (auto simp: connector_rule_def py_index_def)
  moreover have "normal_word U chaos words i rng2 = Some ([s], i + 1, rng3)"
    using assms by (simp add: normal_word_def py_index_def)
  ultimately show ?thesis
    using idiom_window_connector [OF assms(1,2)] connector_window_connector [OF assms(1,2)]
    by (simp add: smurfify_step_def)
qed

lemma idiom_step:
  assumes "i + 2 < length words" and "py_lower U (words ! (i + 1)) = py ''some''"
    and "strip_nonword U (py_lower U (words ! i)) \<in> VERBS"
    and "strip_nonword U (py_lower U (words ! (i + 2))) \<in> NOUNS"
  shows "smurfify_step U chaos words i rng =
           (if draw_value (shd rng) < 1 / 2
            then Some ([fst (smurfify_word U chaos (words ! i) (stl rng)), py ''some'', words ! (i + 2)],
                       i + 3, snd (smurfify_word U chaos (words ! i) (stl rng)))
            else Some ([words ! i, py ''some'', fst (smurfify_word U chaos (words ! (i + 2)) (stl rng))],
                       i + 3, snd (smurfify_word U chaos (words ! (i + 2)) (stl rng))))"
proof -
  have "idiom_window U words i = Some True"
    using assms by (simp add: idiom_window_def py_index_def)
  then show ?thesis
    using assms(1)
    by (simp add: smurfify_step_def idiom_rule_def py_index_def py_random_def split_beta)
qed

lemma smurfify_loop_step:
  assumes "smurfify_step U chaos words i rng = Some (out, j, rng')" and "i < length words"
  shows "smurfify_loop U chaos words i result rng = smurfify_loop U chaos words j (result @ out) rng'"
  using assms by (subst smurfify_loop.simps) simp

subsection \<open>Exclamations and single sub-words\<close>

lemma EXCLAIMS_only:
  "\<forall>w \<in> EXCLAIMS. w \<noteq> py ''nice'' \<longrightarrow> w \<notin> VERBS \<and> w \<notin> NOUNS \<and> w \<notin> ADJECTIVES"
  unfolding EXCLAIMS_def by (simp add: VERBS_def NOUNS_def ADJECTIVES_def)

lemma smurfify_word_single:
  assumes "re_match_word U token = Some (base, punct)" and "45 \<notin> set base"
  shows "smurfify_word U chaos token rng
           = (fst (smurfify_base U chaos base rng) @ punct, snd (smurfify_base U chaos base rng))"
  using assms py_split_on_absent [OF assms(2)]
  by (simp add: smurfify_word_def split_beta)

lemma smurfify_parts_length: "length (fst (smurfify_parts U chaos parts rng)) = length parts"
  by (induction parts arbitrary: rng) (simp_all add: split_beta)

text \<open>A string that ends in a line feed matches without it; a token of a line holds none.\<close>

lemma line_feed_is_dropped:
  "re_match_word U (py ''abc'' @ [10]) = Some (py ''abc'', [])"
  by (simp add: re_match_word_def c_isbase_def c_ispunct_def char_class_defs)

subsection \<open>The database at work\<close>

text \<open>
  What the functions do above ASCII follows the database. Stated for the entries the
  database of Python has: "\<^verbatim>\<open>E\<close>cole" with a capital E acute (U+00C9) is title case, so
  a replacement is capitalised; "caf\<^verbatim>\<open>e\<close>" with e acute (U+00E9) is alphabetic, so with
  the chaos chance 1 it is replaced and a draw is taken; "AS" followed by the Kelvin sign
  (U+212A) lower-cases to the verb "ask"; "na\<^verbatim>\<open>i\<close>ve." with i diaeresis (U+00EF)
  matches the token pattern; and "fix\<^verbatim>\<open>e\<close>" is no verb for the idiom window.
\<close>

lemma ecole_is_capitalised:
  assumes "ucd_isupper U 201" and "\<not> ucd_islower U 201" and "\<not> ucd_istitle U 201"
    and "ucd_lower U (201 # py ''cole'') 0 = [233]"
  shows "apply_inflection U (py ''smurf'') (201 # py ''cole'') = py ''Smurf''"
  using assms by (simp add: apply_inflection_def py_str_defs char_class_defs)

lemma cafe_is_alphabetic:
  assumes "ucd_isalpha U 233" and "ucd_islower U 233" and "\<not> ucd_isupper U 233"
    and "\<not> ucd_istitle U 233" and "ucd_lower U (py ''caf'' @ [233]) (length (py ''caf'')) = [233]"
  shows "smurfify_base U 1 (py ''caf'' @ [233]) rng = (py ''smurf'', stl rng)"
  using assms draw_value_range [of "shd rng"]
  by (simp add: word_eval)

lemma kelvin_sign_is_lowered:
  assumes "ucd_lower U (py ''AS'' @ [8490]) (length (py ''AS'')) = [107]" and "ucd_isupper U 8490"
    and "\<not> ucd_islower U 8490" and "\<not> ucd_istitle U 8490" and "ucd_upper U 8490 = [8490]"
  shows "smurfify_base U chaos (py ''AS'' @ [8490]) rng = (py ''SMURF'', rng)"
  using assms by (simp add: word_eval)

lemma naive_matches:
  assumes "ucd_isword U 239"
  shows "re_match_word U (py ''na'' @ [239] @ py ''ve.'') = Some (py ''na'' @ [239] @ py ''ve'', py ''.'')"
  using assms by (simp add: re_match_word_def c_isbase_def c_ispunct_def char_class_defs)

lemma fixe_is_no_verb:
  assumes "ucd_isword U 233" and "ucd_lower U (py ''fix'' @ [233]) (length (py ''fix'')) = [233]"
  shows "strip_nonword U (py_lower U (py ''fix'' @ [233])) \<notin> VERBS"
  using assms
  by (simp add: strip_nonword_def c_isbase_def VERBS_def py_str_defs char_class_defs)

subsection \<open>Words whose lower-case form is made of ASCII letters\<close>

lemma lower_from_nonascii:
  assumes "drop i s = cs" and "k < length cs" and "128 \<le> cs ! k"
  shows "set (ucd_lower U s (i + k)) \<subseteq> set (lower_from U s i cs)"
  using assms
proof (induction cs arbitrary: i k)
  case Nil
  then show ?case by simp
next
  case (Cons c cs)
  have rest: "drop (Suc i) s = cs"
    using Cons.prems(1) by (metis drop_Suc list.sel(3) tl_drop)
  show ?case
  proof (cases k)
    case 0
    with Cons.prems show ?thesis by auto
  next
    case (Suc k')
    with Cons.prems have "k' < length cs" and "128 \<le> cs ! k'" by simp_all
    from Cons.IH [OF rest this] Suc show ?thesis by auto
  qed
qed

lemma lowered_letters:
  assumes "case_sound U" and "list_all a_islower (py_lower U s)"
  shows "list_all (\<lambda>c. c_isalpha U c \<and> c_isword U c) s"
proof -
  have "c_isalpha U (s ! k) \<and> c_isword U (s ! k)" if k: "k < length s" for k
  proof (cases "s ! k < 128")
    case True
    have "s ! k \<in> set s" using k by simp
    then have "a_lower (s ! k) \<in> set (py_lower U s)"
      unfolding py_lower_def using True by (rule lower_from_keeps_ascii)
    with assms(2) have "a_islower (a_lower (s ! k))"
      by (simp add: list_all_iff)
    then have "a_isupper (s ! k) \<or> a_islower (s ! k)"
      by (rule a_lower_islower)
    with True show ?thesis
      by (auto simp: c_isalpha_def c_isword_def)
  next
    case False
    then have big: "128 \<le> s ! k" by simp
    have "set (ucd_lower U s (0 + k)) \<subseteq> set (lower_from U s 0 s)"
      using k big by (intro lower_from_nonascii) simp_all
    with assms(2) have "list_all a_islower (ucd_lower U s k)"
      by (auto simp: list_all_iff py_lower_def)
    with assms(1) k big have "ucd_isalpha U (s ! k) \<and> ucd_isword U (s ! k)"
      unfolding case_sound_def by blast
    with False show ?thesis
      by (simp add: c_isalpha_def c_isword_def)
  qed
  then show ?thesis
    by (simp add: list_all_length)
qed

lemma py_lower_nonempty: "py_lower U s \<noteq> [] \<Longrightarrow> s \<noteq> []"
  by (auto simp: py_lower_def)

lemma case_sound_kelvin_sign: "case_sound kelvin_sign"
  by (auto simp: case_sound_def kelvin_sign_def a_islower_def split: if_splits)

subsection \<open>What one pass emits\<close>

lemma emitted_for_same: "emitted_for U chaos w w"
  by (simp add: emitted_for_def)

lemma emitted_for_word: "emitted_for U chaos w (fst (smurfify_word U chaos w r))"
  by (auto simp: emitted_for_def)

lemma emitted_for_some: "py_lower U w = py ''some'' \<Longrightarrow> emitted_for U chaos w (py ''some'')"
  by (simp add: emitted_for_def)

lemma all_less_3:
  "(\<forall>k<Suc (Suc (Suc 0)). P k) \<longleftrightarrow> P 0 \<and> P (Suc 0) \<and> P (Suc (Suc 0))"
  by (auto simp: less_Suc_eq)

lemma idiom_window_eq:
  "idiom_window U words i =
     Some (i + 2 < length words \<and> py_lower U (words ! (i + 1)) = py ''some''
           \<and> strip_nonword U (py_lower U (words ! i)) \<in> VERBS
           \<and> strip_nonword U (py_lower U (words ! (i + 2))) \<in> NOUNS)"
  by (simp add: idiom_window_def py_index_def)

lemma connector_window_eq:
  "connector_window U words i =
     Some (i + 2 < length words \<and> py_lower U (words ! (i + 1)) \<in> CONNECTORS)"
  by (simp add: connector_window_def py_index_def)

lemma normal_step:
  assumes "i < length words"
    and "\<not> (i + 2 < length words \<and> py_lower U (words ! (i + 1)) = py ''some''
           \<and> strip_nonword U (py_lower U (words ! i)) \<in> VERBS
           \<and> strip_nonword U (py_lower U (words ! (i + 2))) \<in> NOUNS)"
    and "\<not> (i + 2 < length words \<and> py_lower U (words ! (i + 1)) \<in> CONNECTORS)"
  shows "smurfify_step U chaos words i rng =
           Some ([fst (smurfify_word U chaos (words ! i) rng)], i + 1,
                 snd (smurfify_word U chaos (words ! i) rng))"
proof -
  have "idiom_window U words i = Some False"
    using assms(2) by (simp only: idiom_window_eq)
  moreover have "connector_window U words i = Some False"
    using assms(3) by (simp only: connector_window_eq)
  ultimately show ?thesis
    using assms(1) by (simp add: smurfify_step_def normal_word_def py_index_def split_beta)
qed

lemma smurfify_step_shape:
  assumes "i < length words"
  shows "\<exists>out j rng'. smurfify_step U chaos words i rng = Some (out, j, rng')
           \<and> j = i + length out \<and> j \<le> length words
           \<and> (\<forall>k<length out. emitted_for U chaos (words ! (i + k)) (out ! k))"
proof -
  have enough: "\<exists>out j rng'. smurfify_step U chaos words i rng = Some (out, j, rng')
           \<and> j = i + length out \<and> j \<le> length words
           \<and> (\<forall>k<length out. emitted_for U chaos (words ! (i + k)) (out ! k))"
    if "smurfify_step U chaos words i rng = Some (out, i + length out, r)"
      and "i + length out \<le> length words"
      and "\<forall>k<length out. emitted_for U chaos (words ! (i + k)) (out ! k)"
    for out r
    using that by blast
  show ?thesis
  proof (cases "i + 2 < length words \<and> py_lower U (words ! (i + 1)) = py ''some''
           \<and> strip_nonword U (py_lower U (words ! i)) \<in> VERBS
           \<and> strip_nonword U (py_lower U (words ! (i + 2))) \<in> NOUNS")
    case True
    from True have middle: "emitted_for U chaos (words ! (i + 1)) (py ''some'')"
      using emitted_for_some [of U "words ! (i + 1)" chaos] by blast
    show ?thesis
    proof (cases "draw_value (shd rng) < 1 / 2")
      case first: True
      let ?out = "[fst (smurfify_word U chaos (words ! i) (stl rng)), py ''some'', words ! (i + 2)]"
      have "smurfify_step U chaos words i rng
            = Some (?out, i + length ?out, snd (smurfify_word U chaos (words ! i) (stl rng)))"
        using True first idiom_step [of i words U chaos rng] by simp
      moreover have "i + length ?out \<le> length words"
        using True by simp
      moreover have "\<forall>k<length ?out. emitted_for U chaos (words ! (i + k)) (?out ! k)"
        using middle by (simp add: all_less_3 emitted_for_same emitted_for_word)
      ultimately show ?thesis
        by (rule enough)
    next
      case second: False
      let ?out = "[words ! i, py ''some'', fst (smurfify_word U chaos (words ! (i + 2)) (stl rng))]"
      have "smurfify_step U chaos words i rng
            = Some (?out, i + length ?out, snd (smurfify_word U chaos (words ! (i + 2)) (stl rng)))"
        using True second idiom_step [of i words U chaos rng] by simp
      moreover have "i + length ?out \<le> length words"
        using True by simp
      moreover have "\<forall>k<length ?out. emitted_for U chaos (words ! (i + k)) (?out ! k)"
        using middle by (simp add: all_less_3 emitted_for_same emitted_for_word)
      ultimately show ?thesis
        by (rule enough)
    qed
  next
    case no_idiom: False
    show ?thesis
    proof (cases "i + 2 < length words \<and> py_lower U (words ! (i + 1)) \<in> CONNECTORS")
      case True
      obtain s1 rng1 where w1: "smurfify_word U chaos (words ! i) rng = (s1, rng1)"
        by (cases "smurfify_word U chaos (words ! i) rng")
      obtain s2 rng2 where w2: "smurfify_word U chaos (words ! (i + 2)) rng1 = (s2, rng2)"
        by (cases "smurfify_word U chaos (words ! (i + 2)) rng1")
      have e1: "emitted_for U chaos (words ! i) s1"
        using emitted_for_word [of U chaos "words ! i" rng] w1 by simp
      have e2: "emitted_for U chaos (words ! (i + 2)) s2"
        using emitted_for_word [of U chaos "words ! (i + 2)" rng1] w2 by simp
      show ?thesis
      proof (cases "is_smurfed U s1 \<and> is_smurfed U s2")
        case collision: True
        let ?out = "if draw_value (shd rng2) < 1 / 2 then [s1, words ! (i + 1), words ! (i + 2)]
                    else [words ! i, words ! (i + 1), s2]"
        have "smurfify_step U chaos words i rng = Some (?out, i + length ?out, stl rng2)"
          using True w1 w2 collision
            connector_step_collision [of i words U chaos rng s1 rng1 s2 rng2]
          by simp
        moreover have "i + length ?out \<le> length words"
          using True by simp
        moreover have "\<forall>k<length ?out. emitted_for U chaos (words ! (i + k)) (?out ! k)"
          using e1 e2 by (simp add: all_less_3 emitted_for_same)
        ultimately show ?thesis
          by (rule enough)
      next
        case no_collision: False
        obtain s rng3 where w3: "smurfify_word U chaos (words ! i) rng2 = (s, rng3)"
          by (cases "smurfify_word U chaos (words ! i) rng2")
        have "smurfify_step U chaos words i rng = Some ([s], i + length [s], rng3)"
          using True w1 w2 w3 no_collision
            connector_step_fallthrough [of i words U chaos rng s1 rng1 s2 rng2 s rng3]
          by simp
        moreover have "i + length [s] \<le> length words"
          using assms by simp
        moreover have "\<forall>k<length [s]. emitted_for U chaos (words ! (i + k)) ([s] ! k)"
          using emitted_for_word [of U chaos "words ! i" rng2] w3 by simp
        ultimately show ?thesis
          by (rule enough)
      qed
    next
      case False
      let ?s = "fst (smurfify_word U chaos (words ! i) rng)"
      have "smurfify_step U chaos words i rng =
             Some ([?s], i + length [?s], snd (smurfify_word U chaos (words ! i) rng))"
        using normal_step [OF assms no_idiom False, of chaos rng] by simp
      moreover have "i + length [?s] \<le> length words"
        using assms by simp
      moreover have "\<forall>k<length [?s]. emitted_for U chaos (words ! (i + k)) ([?s] ! k)"
        by (simp add: emitted_for_word)
      ultimately show ?thesis
        by (rule enough)
    qed
  qed
qed

subsection \<open>Tokens that pass through, and the whole loop\<close>

lemma nonalpha_unclassified:
  assumes "case_sound U" and "\<not> py_isalpha U p"
  shows "py_lower U p \<notin> VERBS \<union> NOUNS \<union> ADJECTIVES \<union> EXCLAIMS"
proof
  assume "py_lower U p \<in> VERBS \<union> NOUNS \<union> ADJECTIVES \<union> EXCLAIMS"
  then have low: "py_lower U p \<noteq> [] \<and> list_all a_islower (py_lower U p)"
    by (rule lexicon_lower)
  then have "list_all (\<lambda>c. c_isalpha U c \<and> c_isword U c) p"
    using assms(1) lowered_letters by blast
  moreover have "p \<noteq> []"
    using low py_lower_nonempty by blast
  ultimately have "py_isalpha U p"
    by (simp add: py_isalpha_def list_all_iff)
  with assms(2) show False by simp
qed

lemma word_passes:
  assumes "case_sound U" and "\<not> list_ex c_isspace t" and "passes_unchanged U t"
  shows "smurfify_word U chaos t rng = (t, rng)"
proof (cases "re_match_word U t")
  case None
  then show ?thesis by (simp add: smurfify_word_def)
next
  case (Some m)
  obtain base punct where m: "m = (base, punct)" by (cases m)
  with Some have match: "re_match_word U t = Some (base, punct)" by simp
  with assms(3) have "list_all (\<lambda>p. \<not> py_isalpha U p) (py_split_on 45 base)"
    by (simp add: passes_unchanged_def)
  then have "list_all (\<lambda>p. py_lower U p \<notin> VERBS \<union> NOUNS \<union> ADJECTIVES \<union> EXCLAIMS
                          \<and> \<not> py_isalpha U p) (py_split_on 45 base)"
    using nonalpha_unclassified [OF assms(1)] by (simp add: list_all_iff)
  then have "smurfify_parts U chaos (py_split_on 45 base) rng = (py_split_on 45 base, rng)"
    by (rule smurfify_parts_untouched)
  moreover have "base @ punct = t"
    using match assms(2) by (rule re_match_word_rejoin)
  ultimately show ?thesis
    using match by (simp add: smurfify_word_def py_join_split_on)
qed

lemma some_does_not_pass:
  assumes "case_sound U" and "py_lower U w = py ''some''"
  shows "\<not> passes_unchanged U w"
proof -
  have "list_all a_islower (py_lower U w)"
    using assms(2) by (simp add: a_islower_def)
  then have letters: "list_all (\<lambda>c. c_isalpha U c \<and> c_isword U c) w"
    using assms(1) lowered_letters by blast
  have nonempty: "w \<noteq> []"
    using assms(2) py_lower_nonempty [of U w] by simp
  have "\<not> c_isalpha U 45"
    by (simp add: c_isalpha_def a_isupper_def a_islower_def)
  with letters have no_hyphen: "45 \<notin> set w"
    by (auto simp: list_all_iff)
  from letters have "\<forall>c \<in> set w. c_isbase U c"
    by (simp add: list_all_iff c_isbase_def)
  then have tw: "takeWhile (c_isbase U) w = w" and dw: "dropWhile (c_isbase U) w = []"
    by simp_all
  have "re_match_word U w = Some (w, [])"
    unfolding re_match_word_def tw dw using nonempty by simp
  moreover have "py_split_on 45 w = [w]"
    using no_hyphen by (rule py_split_on_absent)
  moreover have "py_isalpha U w"
    using letters nonempty by (simp add: py_isalpha_def list_all_iff)
  ultimately show ?thesis
    by (simp add: passes_unchanged_def)
qed

lemma emitted_passes:
  assumes "case_sound U" and "\<not> list_ex c_isspace w" and "passes_unchanged U w"
    and "emitted_for U chaos w out"
  shows "out = w"
  using assms word_passes [OF assms(1,2,3)] some_does_not_pass [OF assms(1)]
  by (auto simp: emitted_for_def)

lemma smurfify_loop_frame:
  assumes "i \<le> length words" and "length result = i"
    and "\<forall>k<i. emitted_for U chaos (words ! k) (result ! k)"
  shows "\<exists>res rng'. smurfify_loop U chaos words i result rng = Some (res, rng')
           \<and> length res = length words
           \<and> (\<forall>k<length words. emitted_for U chaos (words ! k) (res ! k))"
  using assms
proof (induction U chaos words i result rng rule: smurfify_loop.induct)
  case (1 U chaos words i result rng)
  show ?case
  proof (cases "i < length words")
    case False
    with "1.prems" have "i = length words" by simp
    moreover have "smurfify_loop U chaos words i result rng = Some (result, rng)"
      using False by (subst smurfify_loop.simps) simp
    ultimately show ?thesis
      using "1.prems" by simp
  next
    case True
    obtain out j rng1 where step: "smurfify_step U chaos words i rng = Some (out, j, rng1)"
      and j: "j = i + length out" and bound: "j \<le> length words"
      and frame: "\<forall>k<length out. emitted_for U chaos (words ! (i + k)) (out ! k)"
      using smurfify_step_shape [OF True, of U chaos rng] by blast
    have len: "length (result @ out) = j"
      using "1.prems"(2) j by simp
    have all: "\<forall>k<j. emitted_for U chaos (words ! k) ((result @ out) ! k)"
    proof (intro allI impI)
      fix k
      assume "k < j"
      show "emitted_for U chaos (words ! k) ((result @ out) ! k)"
      proof (cases "k < i")
        case True
        with "1.prems"(2,3) show ?thesis
          by (simp add: nth_append)
      next
        case False
        with \<open>k < j\<close> j have "k - i < length out" by simp
        with frame have "emitted_for U chaos (words ! (i + (k - i))) (out ! (k - i))"
          by blast
        with False "1.prems"(2) show ?thesis
          by (simp add: nth_append)
      qed
    qed
    have "\<exists>res rng'. smurfify_loop U chaos words j (result @ out) rng1 = Some (res, rng')
           \<and> length res = length words
           \<and> (\<forall>k<length words. emitted_for U chaos (words ! k) (res ! k))"
      using "1.IH" [OF True step refl refl bound len all] .
    moreover have "smurfify_loop U chaos words i result rng
                   = smurfify_loop U chaos words j (result @ out) rng1"
      using step True by (rule smurfify_loop_step)
    ultimately show ?thesis
      by simp
  qed
qed

section \<open>Properties of the inflector\<close>

text \<open>
  C3. For every stem and every original word, \<open>apply_inflection\<close> is the inflector of
  the specification: the original is lower-cased, exactly one suffix rule is selected in
  the order "ing", "ed", "s but not ss", none, its suffix is appended to the stem, and
  then the casing of the original decides (all upper case: the result upper-cased; title
  case: the result capitalised; otherwise the result as produced). In particular
  inflecting "smurf" after "Running" gives "Smurfing", "smurf" after "FIXED" gives
  "SMURFED", and "smurfy" after "bugs" gives "smurfys".
\<close>

theorem C3_apply_inflection_refines_spec:
  "apply_inflection U stem original = spec_inflect U stem original
   \<and> apply_inflection U (py ''smurf'') (py ''Running'') = py ''Smurfing''
   \<and> apply_inflection U (py ''smurf'') (py ''FIXED'') = py ''SMURFED''
   \<and> apply_inflection U (py ''smurfy'') (py ''bugs'') = py ''smurfys''"
proof -
  have general: "apply_inflection U stem original = spec_inflect U stem original"
    by (simp add: apply_inflection_def spec_inflect_def spec_suffix_rule_def
        spec_casing_rule_def Let_def)
  have running: "apply_inflection U (py ''smurf'') (py ''Running'') = py ''Smurfing''"
    by (simp add: apply_inflection_def py_str_defs char_class_defs)
  have fixed: "apply_inflection U (py ''smurf'') (py ''FIXED'') = py ''SMURFED''"
    by (simp add: apply_inflection_def py_str_defs char_class_defs)
  have bugs: "apply_inflection U (py ''smurfy'') (py ''bugs'') = py ''smurfys''"
    by (simp add: apply_inflection_def py_str_defs char_class_defs)
  from general running fixed bugs show ?thesis by simp
qed

section \<open>Properties of the word transformer\<close>

text \<open>
  C4. Classification precedence and stems. For every base word the lower-cased word is
  looked up first in the verb and noun sets, then in the adjective set, then in the
  exclamation set, and the first set that holds it decides: a verb or noun gives the
  stem "smurf" inflected, an adjective the stem "smurfy" inflected, an exclamation the
  literal "Smurf!". So "nice", which is an adjective and an exclamation, gives "smurfy".
  The word "fix" gives "smurf" and "BROKEN" gives "SMURFY". The word "fixing" is in no
  set (the sets hold "fix", and the lookup is of the whole word): it gives "smurfing"
  when its chaos draw is below the chaos chance, and is returned as it stands otherwise.
\<close>

theorem C4_classification_precedence:
  "(py_lower U base \<in> VERBS \<union> NOUNS
      \<longrightarrow> smurfify_base U chaos base rng = (apply_inflection U (py ''smurf'') base, rng))
   \<and> (py_lower U base \<notin> VERBS \<union> NOUNS \<and> py_lower U base \<in> ADJECTIVES
      \<longrightarrow> smurfify_base U chaos base rng = (apply_inflection U (py ''smurfy'') base, rng))
   \<and> (py_lower U base \<notin> VERBS \<union> NOUNS \<union> ADJECTIVES \<and> py_lower U base \<in> EXCLAIMS
      \<longrightarrow> smurfify_base U chaos base rng = (py ''Smurf!'', rng))
   \<and> py ''nice'' \<in> ADJECTIVES \<inter> EXCLAIMS
   \<and> smurfify_base U chaos (py ''nice'') rng = (py ''smurfy'', rng)
   \<and> smurfify_word U chaos (py ''fix'') rng = (py ''smurf'', rng)
   \<and> smurfify_word U chaos (py ''BROKEN'') rng = (py ''SMURFY'', rng)
   \<and> py_lower U (py ''fixing'') \<notin> VERBS \<union> NOUNS \<union> ADJECTIVES \<union> EXCLAIMS
   \<and> smurfify_word U chaos (py ''fixing'') rng =
       (if draw_value (shd rng) < chaos then py ''smurfing'' else py ''fixing'', stl rng)"
proof -
  have verb_noun: "py_lower U base \<in> VERBS \<union> NOUNS
      \<longrightarrow> smurfify_base U chaos base rng = (apply_inflection U (py ''smurf'') base, rng)"
    by (simp add: smurfify_base_def Let_def)
  have adjective: "py_lower U base \<notin> VERBS \<union> NOUNS \<and> py_lower U base \<in> ADJECTIVES
      \<longrightarrow> smurfify_base U chaos base rng = (apply_inflection U (py ''smurfy'') base, rng)"
    by (simp add: smurfify_base_def Let_def)
  have exclaim: "py_lower U base \<notin> VERBS \<union> NOUNS \<union> ADJECTIVES \<and> py_lower U base \<in> EXCLAIMS
      \<longrightarrow> smurfify_base U chaos base rng = (py ''Smurf!'', rng)"
    by (simp add: smurfify_base_def Let_def)
  have nice_sets: "py ''nice'' \<in> ADJECTIVES \<inter> EXCLAIMS"
    by (simp add: ADJECTIVES_def EXCLAIMS_def)
  have nice: "smurfify_base U chaos (py ''nice'') rng = (py ''smurfy'', rng)"
    by (simp add: word_eval)
  have fix_word: "smurfify_word U chaos (py ''fix'') rng = (py ''smurf'', rng)"
    by (simp add: word_eval)
  have broken: "smurfify_word U chaos (py ''BROKEN'') rng = (py ''SMURFY'', rng)"
    by (simp add: word_eval)
  have fixing_sets: "py_lower U (py ''fixing'') \<notin> VERBS \<union> NOUNS \<union> ADJECTIVES \<union> EXCLAIMS"
    by (simp add: word_eval)
  have fixing: "smurfify_word U chaos (py ''fixing'') rng =
       (if draw_value (shd rng) < chaos then py ''smurfing'' else py ''fixing'', stl rng)"
    by (simp add: word_eval)
  from verb_noun adjective exclaim nice_sets nice fix_word broken fixing_sets fixing
  show ?thesis by blast
qed

theorem C4_classification_precedence_witness:
  "py_lower ascii_only (py ''Windows'') \<in> VERBS \<union> NOUNS
   \<and> smurfify_base ascii_only CHAOS_CHANCE (py ''Windows'') (sconst 0) = (py ''Smurfs'', sconst 0)
   \<and> py_lower ascii_only (py ''GOOD'') \<notin> VERBS \<union> NOUNS \<and> py_lower ascii_only (py ''GOOD'') \<in> ADJECTIVES
   \<and> smurfify_base ascii_only CHAOS_CHANCE (py ''GOOD'') (sconst 0) = (py ''SMURFY'', sconst 0)
   \<and> py_lower ascii_only (py ''Wow'') \<notin> VERBS \<union> NOUNS \<union> ADJECTIVES \<and> py_lower ascii_only (py ''Wow'') \<in> EXCLAIMS
   \<and> smurfify_base ascii_only CHAOS_CHANCE (py ''Wow'') (sconst 0) = (py ''Smurf!'', sconst 0)"
proof -
  have w: "py_lower ascii_only (py ''Windows'') \<in> VERBS \<union> NOUNS"
    by (simp add: word_eval)
  have wi: "apply_inflection ascii_only (py ''smurf'') (py ''Windows'') = py ''Smurfs''"
    by (simp add: apply_inflection_def py_str_defs char_class_defs)
  have g: "py_lower ascii_only (py ''GOOD'') \<notin> VERBS \<union> NOUNS \<and> py_lower ascii_only (py ''GOOD'') \<in> ADJECTIVES"
    by (simp add: word_eval)
  have gi: "apply_inflection ascii_only (py ''smurfy'') (py ''GOOD'') = py ''SMURFY''"
    by (simp add: apply_inflection_def py_str_defs char_class_defs)
  have x: "py_lower ascii_only (py ''Wow'') \<notin> VERBS \<union> NOUNS \<union> ADJECTIVES \<and> py_lower ascii_only (py ''Wow'') \<in> EXCLAIMS"
    by (simp add: word_eval)
  have "smurfify_base ascii_only CHAOS_CHANCE (py ''Windows'') (sconst 0)
          = (apply_inflection ascii_only (py ''smurf'') (py ''Windows''), sconst 0)"
    using C4_classification_precedence [of ascii_only "py ''Windows''" CHAOS_CHANCE "sconst 0"] w by blast
  then have r1: "smurfify_base ascii_only CHAOS_CHANCE (py ''Windows'') (sconst 0) = (py ''Smurfs'', sconst 0)"
    by (simp only: wi)
  have "smurfify_base ascii_only CHAOS_CHANCE (py ''GOOD'') (sconst 0)
          = (apply_inflection ascii_only (py ''smurfy'') (py ''GOOD''), sconst 0)"
    using C4_classification_precedence [of ascii_only "py ''GOOD''" CHAOS_CHANCE "sconst 0"] g by blast
  then have r2: "smurfify_base ascii_only CHAOS_CHANCE (py ''GOOD'') (sconst 0) = (py ''SMURFY'', sconst 0)"
    by (simp only: gi)
  have r3: "smurfify_base ascii_only CHAOS_CHANCE (py ''Wow'') (sconst 0) = (py ''Smurf!'', sconst 0)"
    using C4_classification_precedence [of ascii_only "py ''Wow''" CHAOS_CHANCE "sconst 0"] x by blast
  from w r1 g r2 x r3 show ?thesis by blast
qed

text \<open>
  The word "fixing" is not always transformed: with the chaos chance of the source and
  the draw one half it is returned as it stands.
\<close>

theorem C4_fixing_counterexample:
  "py_lower ascii_only (py ''fixing'') \<notin> VERBS \<union> NOUNS \<union> ADJECTIVES \<union> EXCLAIMS
   \<and> fst (smurfify_word ascii_only CHAOS_CHANCE (py ''fixing'') (sconst 4503599627370496)) = py ''fixing''
   \<and> fst (smurfify_word ascii_only CHAOS_CHANCE (py ''fixing'') (sconst 4503599627370496)) \<noteq> py ''smurfing''"
  by (simp add: word_eval draw_value_half CHAOS_CHANCE_def)

text \<open>
  C5. The exclamation bypass. A word whose lower-case form is in the exclamation set and
  is not "nice" is replaced by the literal "Smurf!", whatever its casing and whether or
  not it ends in "s": no suffix is appended and no casing applied. When such a word is
  the base of a token, the token becomes "Smurf!" followed by the token's trailing
  punctuation; so "wow!" becomes "Smurf!!". ("nice" is also an adjective, and the
  adjective set is looked up first.)
\<close>

theorem C5_exclaim_bypass:
  "(py_lower U base \<in> EXCLAIMS \<and> py_lower U base \<noteq> py ''nice''
      \<longrightarrow> smurfify_base U chaos base rng = (py ''Smurf!'', rng)
        \<and> (re_match_word U token = Some (base, punct)
            \<longrightarrow> smurfify_word U chaos token rng = (py ''Smurf!'' @ punct, rng)))
   \<and> smurfify_word U chaos (py ''wow!'') rng = (py ''Smurf!!'', rng)"
proof (intro conjI impI)
  assume h: "py_lower U base \<in> EXCLAIMS \<and> py_lower U base \<noteq> py ''nice''"
  then have "py_lower U base \<notin> VERBS \<and> py_lower U base \<notin> NOUNS \<and> py_lower U base \<notin> ADJECTIVES"
    using EXCLAIMS_only by blast
  with h show marker: "smurfify_base U chaos base rng = (py ''Smurf!'', rng)"
    by (simp add: smurfify_base_def Let_def)
  assume m: "re_match_word U token = Some (base, punct)"
  from h have "45 \<notin> set base"
    using classified_no_hyphen [of U base] by blast
  with m marker show "smurfify_word U chaos token rng = (py ''Smurf!'' @ punct, rng)"
    by (simp add: smurfify_word_single)
next
  show "smurfify_word U chaos (py ''wow!'') rng = (py ''Smurf!!'', rng)"
    by (simp add: word_eval)
qed

theorem C5_exclaim_bypass_witness:
  "py_lower ascii_only (py ''WOOT'') \<in> EXCLAIMS \<and> py_lower ascii_only (py ''WOOT'') \<noteq> py ''nice''
   \<and> re_match_word ascii_only (py ''WOOT?!'') = Some (py ''WOOT'', py ''?!'')
   \<and> smurfify_base ascii_only CHAOS_CHANCE (py ''WOOT'') (sconst 0) = (py ''Smurf!'', sconst 0)
   \<and> smurfify_word ascii_only CHAOS_CHANCE (py ''WOOT?!'') (sconst 0) = (py ''Smurf!?!'', sconst 0)"
proof -
  have h1: "py_lower ascii_only (py ''WOOT'') \<in> EXCLAIMS
      \<and> py_lower ascii_only (py ''WOOT'') \<noteq> py ''nice''"
    by (simp add: EXCLAIMS_def py_str_defs char_class_defs)
  have h2: "re_match_word ascii_only (py ''WOOT?!'') = Some (py ''WOOT'', py ''?!'')"
    by (simp add: re_match_word_def c_isbase_def c_ispunct_def char_class_defs)
  have both: "smurfify_base ascii_only CHAOS_CHANCE (py ''WOOT'') (sconst 0) = (py ''Smurf!'', sconst 0)
      \<and> smurfify_word ascii_only CHAOS_CHANCE (py ''WOOT?!'') (sconst 0)
          = (py ''Smurf!'' @ py ''?!'', sconst 0)"
    using C5_exclaim_bypass [of ascii_only "py ''WOOT''" CHAOS_CHANCE "sconst 0" "py ''WOOT?!''"
        "py ''?!''"] h1 h2
    by blast
  have cat: "py ''Smurf!'' @ py ''?!'' = py ''Smurf!?!''"
    by simp
  from both have result:
    "smurfify_base ascii_only CHAOS_CHANCE (py ''WOOT'') (sconst 0) = (py ''Smurf!'', sconst 0)
      \<and> smurfify_word ascii_only CHAOS_CHANCE (py ''WOOT?!'') (sconst 0) = (py ''Smurf!?!'', sconst 0)"
    by (simp only: cat)
  from h1 h2 result show ?thesis
    by blast
qed

text \<open>
  "nice" is in the exclamation set and is not replaced by the literal: it is an adjective
  first, so it becomes "smurfy", and "Nice!" becomes "Smurfy!", with the casing applied.
\<close>

theorem C5_nice_counterexample:
  "py ''nice'' \<in> EXCLAIMS
   \<and> fst (smurfify_base ascii_only CHAOS_CHANCE (py ''nice'') (sconst 0)) = py ''smurfy''
   \<and> fst (smurfify_base ascii_only CHAOS_CHANCE (py ''nice'') (sconst 0)) \<noteq> py ''Smurf!''
   \<and> fst (smurfify_word ascii_only CHAOS_CHANCE (py ''Nice!'') (sconst 0)) = py ''Smurfy!''"
  by (simp add: word_eval)

text \<open>
  C6. Punctuation is preserved. A token that does not match the pattern is returned as
  it stands. A token that matches with base \<open>base\<close> and trailing punctuation \<open>punct\<close>
  becomes the transformed sub-words of the base (as many as the base has), joined by
  hyphens, followed by \<open>punct\<close> itself. Splitting the base at hyphens and joining again
  gives the base; and for a token of a line (a word of \<^verbatim>\<open>line.split()\<close>) base and
  punctuation together are the token, so when no sub-word is replaced the token is
  returned exactly.
\<close>

theorem C6_punctuation_preserved:
  "(re_match_word U t = None \<longrightarrow> smurfify_word U chaos t rng = (t, rng))
   \<and> (re_match_word U t = Some (base, punct)
      \<longrightarrow> fst (smurfify_word U chaos t rng)
            = py_join [45] (fst (smurfify_parts U chaos (py_split_on 45 base) rng)) @ punct
        \<and> length (fst (smurfify_parts U chaos (py_split_on 45 base) rng))
            = length (py_split_on 45 base)
        \<and> py_join [45] (py_split_on 45 base) = base
        \<and> (t \<in> set (py_split line)
            \<longrightarrow> base @ punct = t
              \<and> (fst (smurfify_parts U chaos (py_split_on 45 base) rng) = py_split_on 45 base
                  \<longrightarrow> fst (smurfify_word U chaos t rng) = t)))"
proof (intro conjI impI)
  assume "re_match_word U t = None"
  then show "smurfify_word U chaos t rng = (t, rng)"
    by (simp add: smurfify_word_def)
next
  assume m: "re_match_word U t = Some (base, punct)"
  then show w: "fst (smurfify_word U chaos t rng)
            = py_join [45] (fst (smurfify_parts U chaos (py_split_on 45 base) rng)) @ punct"
    by (simp add: smurfify_word_def split_beta)
  show "length (fst (smurfify_parts U chaos (py_split_on 45 base) rng))
            = length (py_split_on 45 base)"
    by (rule smurfify_parts_length)
  show j: "py_join [45] (py_split_on 45 base) = base"
    by (rule py_join_split_on)
  assume "t \<in> set (py_split line)"
  then have "\<not> list_ex c_isspace t"
    using py_split_tokens by blast
  with m show r: "base @ punct = t"
    by (rule re_match_word_rejoin)
  assume "fst (smurfify_parts U chaos (py_split_on 45 base) rng) = py_split_on 45 base"
  with w j r show "fst (smurfify_word U chaos t rng) = t"
    by simp
qed

theorem C6_punctuation_preserved_witness:
  "re_match_word ascii_only [128512] = None
   \<and> smurfify_word ascii_only CHAOS_CHANCE [128512] (sconst 4503599627370496)
       = ([128512], sconst 4503599627370496)
   \<and> py ''re-do!?'' \<in> set (py_split (py '' re-do!?  ok''))
   \<and> re_match_word ascii_only (py ''re-do!?'') = Some (py ''re-do'', py ''!?'')
   \<and> fst (smurfify_parts ascii_only CHAOS_CHANCE (py_split_on 45 (py ''re-do''))
           (sconst 4503599627370496)) = py_split_on 45 (py ''re-do'')
   \<and> py ''re-do'' @ py ''!?'' = py ''re-do!?''
   \<and> fst (smurfify_word ascii_only CHAOS_CHANCE (py ''re-do!?'') (sconst 4503599627370496))
       = py ''re-do!?''"
proof -
  let ?r = "sconst (4503599627370496 :: draw)"
  have n: "re_match_word ascii_only [128512] = None"
    by (simp add: re_match_word_def c_isbase_def c_ispunct_def char_class_defs ascii_only_def)
  have n': "smurfify_word ascii_only CHAOS_CHANCE [128512] ?r = ([128512], ?r)"
    using C6_punctuation_preserved [of ascii_only "[128512]" CHAOS_CHANCE ?r] n by blast
  have tok: "py ''re-do!?'' \<in> set (py_split (py '' re-do!?  ok''))"
    by (simp add: py_split.simps c_isspace_def)
  have m: "re_match_word ascii_only (py ''re-do!?'') = Some (py ''re-do'', py ''!?'')"
    by (simp add: re_match_word_def c_isbase_def c_ispunct_def char_class_defs)
  have parts: "fst (smurfify_parts ascii_only CHAOS_CHANCE (py_split_on 45 (py ''re-do'')) ?r)
      = py_split_on 45 (py ''re-do'')"
    by (simp add: word_eval draw_value_half CHAOS_CHANCE_def)
  have "py ''re-do'' @ py ''!?'' = py ''re-do!?''
      \<and> fst (smurfify_word ascii_only CHAOS_CHANCE (py ''re-do!?'') ?r) = py ''re-do!?''"
    using C6_punctuation_preserved [of ascii_only "py ''re-do!?''" CHAOS_CHANCE ?r
        "py ''re-do''" "py ''!?''" "py '' re-do!?  ok''"] tok m parts
    by blast
  with n n' tok m parts show ?thesis
    by blast
qed

text \<open>
  C7. The chaos fallback at its extremes. With the chaos chance 1, a sub-word that is in
  no category set and is alphabetic is inflected with the stem "smurf", whatever the
  draw (a draw is below 1). With the chaos chance 0, a sub-word that is in no category
  set is returned as it stands, whatever the draw (a draw is not below 0). A sub-word in
  a category set is transformed the same way under either constant as under any other.
\<close>

theorem C7_chaos_extremes:
  "(py_lower U base \<notin> VERBS \<union> NOUNS \<union> ADJECTIVES \<union> EXCLAIMS \<and> py_isalpha U base
      \<longrightarrow> smurfify_base U 1 base rng = (apply_inflection U (py ''smurf'') base, stl rng))
   \<and> (py_lower U base \<notin> VERBS \<union> NOUNS \<union> ADJECTIVES \<union> EXCLAIMS
      \<longrightarrow> fst (smurfify_base U 0 base rng) = base)
   \<and> (py_lower U base \<in> VERBS \<union> NOUNS \<union> ADJECTIVES \<union> EXCLAIMS
      \<longrightarrow> smurfify_base U 1 base rng = smurfify_base U chaos base rng
        \<and> smurfify_base U 0 base rng = smurfify_base U chaos base rng)"
proof (intro conjI impI)
  assume "py_lower U base \<notin> VERBS \<union> NOUNS \<union> ADJECTIVES \<union> EXCLAIMS \<and> py_isalpha U base"
  then show "smurfify_base U 1 base rng = (apply_inflection U (py ''smurf'') base, stl rng)"
    using draw_value_range [of "shd rng"]
    by (simp add: smurfify_base_def py_random_def Let_def)
next
  assume "py_lower U base \<notin> VERBS \<union> NOUNS \<union> ADJECTIVES \<union> EXCLAIMS"
  then show "fst (smurfify_base U 0 base rng) = base"
    using draw_value_range [of "shd rng"]
    by (simp add: smurfify_base_def py_random_def Let_def not_less)
next
  assume "py_lower U base \<in> VERBS \<union> NOUNS \<union> ADJECTIVES \<union> EXCLAIMS"
  then show "smurfify_base U 1 base rng = smurfify_base U chaos base rng"
    by (auto simp: smurfify_base_def Let_def)
next
  assume "py_lower U base \<in> VERBS \<union> NOUNS \<union> ADJECTIVES \<union> EXCLAIMS"
  then show "smurfify_base U 0 base rng = smurfify_base U chaos base rng"
    by (auto simp: smurfify_base_def Let_def)
qed

theorem C7_chaos_extremes_witness:
  "py_lower ascii_only (py ''Gargamels'') \<notin> VERBS \<union> NOUNS \<union> ADJECTIVES \<union> EXCLAIMS
   \<and> py_isalpha ascii_only (py ''Gargamels'')
   \<and> smurfify_base ascii_only 1 (py ''Gargamels'') (sconst 4503599627370496)
        = (py ''Smurfs'', sconst 4503599627370496)
   \<and> fst (smurfify_base ascii_only 0 (py ''Gargamels'') (sconst 0)) = py ''Gargamels''
   \<and> py_lower ascii_only (py ''Fix'') \<in> VERBS \<union> NOUNS \<union> ADJECTIVES \<union> EXCLAIMS
   \<and> smurfify_base ascii_only 1 (py ''Fix'') (sconst 0) = smurfify_base ascii_only CHAOS_CHANCE (py ''Fix'') (sconst 0)
   \<and> smurfify_base ascii_only 0 (py ''Fix'') (sconst 0) = smurfify_base ascii_only CHAOS_CHANCE (py ''Fix'') (sconst 0)"
proof -
  have u: "py_lower ascii_only (py ''Gargamels'') \<notin> VERBS \<union> NOUNS \<union> ADJECTIVES \<union> EXCLAIMS"
    by (simp add: word_eval)
  have a: "py_isalpha ascii_only (py ''Gargamels'')"
    by (simp add: py_str_defs char_class_defs)
  have i: "apply_inflection ascii_only (py ''smurf'') (py ''Gargamels'') = py ''Smurfs''"
    by (simp add: apply_inflection_def py_str_defs char_class_defs)
  have c: "py_lower ascii_only (py ''Fix'') \<in> VERBS \<union> NOUNS \<union> ADJECTIVES \<union> EXCLAIMS"
    by (simp add: word_eval)
  have one: "smurfify_base ascii_only 1 (py ''Gargamels'') (sconst 4503599627370496)
        = (py ''Smurfs'', sconst 4503599627370496)"
    using C7_chaos_extremes [of ascii_only "py ''Gargamels''" "sconst 4503599627370496"] u a i by simp
  have zero: "fst (smurfify_base ascii_only 0 (py ''Gargamels'') (sconst 0)) = py ''Gargamels''"
    using C7_chaos_extremes [of ascii_only "py ''Gargamels''" "sconst 0"] u by blast
  have same: "smurfify_base ascii_only 1 (py ''Fix'') (sconst 0) = smurfify_base ascii_only CHAOS_CHANCE (py ''Fix'') (sconst 0)
     \<and> smurfify_base ascii_only 0 (py ''Fix'') (sconst 0) = smurfify_base ascii_only CHAOS_CHANCE (py ''Fix'') (sconst 0)"
    using C7_chaos_extremes [of ascii_only "py ''Fix''" "sconst 0" CHAOS_CHANCE] c by blast
  from u a one zero c same show ?thesis by blast
qed

section \<open>Properties of the line transformer\<close>

text \<open>
  C1. The idiom rule on the line "fix some bug": whatever the draws, the result is
  "smurf some bug" (the first draw is below one half: the verb is transformed, the noun
  is emitted as it stands) or "fix some smurf" (otherwise: the noun is transformed, the
  verb is emitted as it stands); the middle token "some" is unchanged in both; the two
  results differ, so never both words and never neither is transformed; and each of the
  two results is returned for some draws.
\<close>

theorem C1_idiom_fix_some_bug:
  "(map_option fst (smurfify_line U chaos (py ''fix some bug'') rng) = Some (py ''smurf some bug'')
    \<or> map_option fst (smurfify_line U chaos (py ''fix some bug'') rng) = Some (py ''fix some smurf''))
   \<and> smurfify_line U chaos (py ''fix some bug'') rng =
       Some (if draw_value (shd rng) < 1 / 2 then py ''smurf some bug'' else py ''fix some smurf'',
             stl rng)
   \<and> (\<exists>rng'. map_option fst (smurfify_line U chaos (py ''fix some bug'') rng')
               = Some (py ''smurf some bug''))
   \<and> (\<exists>rng'. map_option fst (smurfify_line U chaos (py ''fix some bug'') rng')
               = Some (py ''fix some smurf''))
   \<and> py ''smurf some bug'' \<noteq> py ''fix some smurf''"
proof -
  have run: "\<And>r. smurfify_line U chaos (py ''fix some bug'') r =
       Some (if draw_value (shd r) < 1 / 2 then py ''smurf some bug'' else py ''fix some smurf'',
             stl r)"
    by (simp add: line_eval word_eval)
  have first: "map_option fst (smurfify_line U chaos (py ''fix some bug'') (sconst 0))
               = Some (py ''smurf some bug'')"
    using run [of "sconst 0"] by (simp add: draw_value_zero)
  have second: "map_option fst (smurfify_line U chaos (py ''fix some bug'') (sconst 4503599627370496))
               = Some (py ''fix some smurf'')"
    using run [of "sconst 4503599627370496"] by (simp add: draw_value_half)
  have either: "map_option fst (smurfify_line U chaos (py ''fix some bug'') rng) = Some (py ''smurf some bug'')
    \<or> map_option fst (smurfify_line U chaos (py ''fix some bug'') rng) = Some (py ''fix some smurf'')"
    using run [of rng] by simp
  have differ: "py ''smurf some bug'' \<noteq> py ''fix some smurf''"
    by simp
  from either run [of rng] first second differ show ?thesis
    by blast
qed

text \<open>
  C2. Collision avoidance, as the loop applies it. On the line "fix and build" the
  result is, whatever the draws, "smurf and build" (the draw is below one half) or
  "fix and smurf"; it is never "smurf and smurf". When the loop stands at position \<open>i\<close>,
  the word at \<open>i + 1\<close> is a connector ("and" or ",", compared in lower case) and the
  transformed forms \<open>s1\<close> and \<open>s2\<close> of the words at \<open>i\<close> and \<open>i + 2\<close> are both
  smurfed, the pass emits exactly one of them transformed and the other in its original
  form, with the connector as it stands between them, and moves on by three words.
\<close>

theorem C2_collision_avoidance:
  "smurfify_line U chaos (py ''fix and build'') rng =
       Some (if draw_value (shd rng) < 1 / 2 then py ''smurf and build'' else py ''fix and smurf'',
             stl rng)
   \<and> map_option fst (smurfify_line U chaos (py ''fix and build'') rng) \<noteq> Some (py ''smurf and smurf'')
   \<and> (i + 2 < length words \<and> py_lower U (words ! (i + 1)) \<in> CONNECTORS
        \<and> smurfify_word U chaos (words ! i) rng = (s1, rng1)
        \<and> smurfify_word U chaos (words ! (i + 2)) rng1 = (s2, rng2)
        \<and> is_smurfed U s1 \<and> is_smurfed U s2
       \<longrightarrow> smurfify_step U chaos words i rng =
             Some (if draw_value (shd rng2) < 1 / 2
                   then [s1, words ! (i + 1), words ! (i + 2)]
                   else [words ! i, words ! (i + 1), s2],
                   i + 3, stl rng2))"
proof -
  have run: "smurfify_line U chaos (py ''fix and build'') rng =
       Some (if draw_value (shd rng) < 1 / 2 then py ''smurf and build'' else py ''fix and smurf'',
             stl rng)"
    by (simp add: line_eval word_eval)
  have never: "map_option fst (smurfify_line U chaos (py ''fix and build'') rng)
               \<noteq> Some (py ''smurf and smurf'')"
    using run by simp
  from run never connector_step_collision [of i words U chaos rng s1 rng1 s2 rng2]
  show ?thesis by blast
qed

theorem C2_collision_avoidance_witness:
  "0 + 2 < length [py ''Fix,'', py '','', py ''windows!'']
   \<and> py_lower ascii_only ([py ''Fix,'', py '','', py ''windows!''] ! (0 + 1)) \<in> CONNECTORS
   \<and> smurfify_word ascii_only CHAOS_CHANCE ([py ''Fix,'', py '','', py ''windows!''] ! 0) (sconst 0)
       = (py ''Smurf,'', sconst 0)
   \<and> smurfify_word ascii_only CHAOS_CHANCE ([py ''Fix,'', py '','', py ''windows!''] ! (0 + 2)) (sconst 0)
       = (py ''smurfs!'', sconst 0)
   \<and> is_smurfed ascii_only (py ''Smurf,'') \<and> is_smurfed ascii_only (py ''smurfs!'')
   \<and> smurfify_step ascii_only CHAOS_CHANCE [py ''Fix,'', py '','', py ''windows!''] 0 (sconst 0)
       = Some ([py ''Smurf,'', py '','', py ''windows!''], 3, sconst 0)"
proof -
  let ?words = "[py ''Fix,'', py '','', py ''windows!'']"
  have h1: "0 + 2 < length ?words" by simp
  have h2: "py_lower ascii_only (?words ! (0 + 1)) \<in> CONNECTORS"
    by (simp add: CONNECTORS_def py_str_defs char_class_defs)
  have h3: "smurfify_word ascii_only CHAOS_CHANCE (?words ! 0) (sconst 0) = (py ''Smurf,'', sconst 0)"
    by (simp add: word_eval)
  have h4: "smurfify_word ascii_only CHAOS_CHANCE (?words ! (0 + 2)) (sconst 0) = (py ''smurfs!'', sconst 0)"
    by (simp add: word_eval)
  have h5: "is_smurfed ascii_only (py ''Smurf,'')" and h6: "is_smurfed ascii_only (py ''smurfs!'')"
    by (simp_all add: is_smurfed_def py_str_defs char_class_defs)
  have "smurfify_step ascii_only CHAOS_CHANCE ?words 0 (sconst 0)
        = Some ([py ''Smurf,'', py '','', py ''windows!''], 3, sconst 0)"
    using C2_collision_avoidance [of ascii_only CHAOS_CHANCE "sconst 0" 0 ?words "py ''Smurf,''" "sconst 0"
        "py ''smurfs!''" "sconst 0"] h1 h2 h3 h4 h5 h6
    by (simp add: draw_value_zero)
  with h1 h2 h3 h4 h5 h6 show ?thesis by blast
qed

text \<open>
  The rule does not cover every connector of a line. In "fix and build and run" the
  first three words are one window; the loop then stands at the second "and", which has
  no two words after it, so "and" and "run" are transformed one by one: with every draw
  one half the line returned is "fix and smurf and smurf", although "build" and "run"
  both transform to "smurf". And in "xyz and fix", when the first transformation of
  "xyz" leaves it (so there is no collision) and the new transformation of the
  fall-through replaces it, the line returned is "smurf and smurf".
\<close>

theorem C2_chain_counterexample:
  "fst (smurfify_word ascii_only CHAOS_CHANCE (py ''build'') (sconst 4503599627370496)) = py ''smurf''
   \<and> fst (smurfify_word ascii_only CHAOS_CHANCE (py ''run'') (sconst 4503599627370496)) = py ''smurf''
   \<and> is_smurfed ascii_only (py ''smurf'')
   \<and> map_option fst (smurfify_line ascii_only CHAOS_CHANCE (py ''fix and build and run'')
         (sconst 4503599627370496))
       = Some (py ''fix and smurf and smurf'')
   \<and> map_option fst (smurfify_line ascii_only CHAOS_CHANCE (py ''xyz and fix'')
         (4503599627370496 ## 0 ## sconst 4503599627370496))
       = Some (py ''smurf and smurf'')"
  by (simp add: line_eval word_eval draw_value_half draw_value_zero CHAOS_CHANCE_def)

text \<open>
  C8. The connector block falls through by one word only. When the loop stands at
  position \<open>i\<close>, the word at \<open>i + 1\<close> is a connector and the transformed forms \<open>s1\<close>
  and \<open>s2\<close> of the two neighbours are not both smurfed, the pass emits one token, a new
  transformation \<open>s\<close> of the word at \<open>i\<close> (made with the generator the two discarded
  transformations left), and the loop goes on at \<open>i + 1\<close>. The idiom pattern, whenever
  its condition holds, emits three tokens and the loop goes on at \<open>i + 3\<close>.
\<close>

theorem C8_fallback_consumes_one:
  "(i + 2 < length words \<and> py_lower U (words ! (i + 1)) \<in> CONNECTORS
      \<and> smurfify_word U chaos (words ! i) rng = (s1, rng1)
      \<and> smurfify_word U chaos (words ! (i + 2)) rng1 = (s2, rng2)
      \<and> \<not> (is_smurfed U s1 \<and> is_smurfed U s2)
      \<and> smurfify_word U chaos (words ! i) rng2 = (s, rng3)
     \<longrightarrow> smurfify_step U chaos words i rng = Some ([s], i + 1, rng3)
        \<and> smurfify_loop U chaos words i result rng
            = smurfify_loop U chaos words (i + 1) (result @ [s]) rng3)
   \<and> (i + 2 < length words \<and> py_lower U (words ! (i + 1)) = py ''some''
      \<and> strip_nonword U (py_lower U (words ! i)) \<in> VERBS
      \<and> strip_nonword U (py_lower U (words ! (i + 2))) \<in> NOUNS
     \<longrightarrow> (\<exists>out rng'. smurfify_step U chaos words i rng = Some (out, i + 3, rng')
            \<and> length out = 3
            \<and> smurfify_loop U chaos words i result rng
                = smurfify_loop U chaos words (i + 3) (result @ out) rng'))"
proof (intro conjI impI)
  assume h: "i + 2 < length words \<and> py_lower U (words ! (i + 1)) \<in> CONNECTORS
      \<and> smurfify_word U chaos (words ! i) rng = (s1, rng1)
      \<and> smurfify_word U chaos (words ! (i + 2)) rng1 = (s2, rng2)
      \<and> \<not> (is_smurfed U s1 \<and> is_smurfed U s2)
      \<and> smurfify_word U chaos (words ! i) rng2 = (s, rng3)"
  then have step: "smurfify_step U chaos words i rng = Some ([s], i + 1, rng3)"
    using connector_step_fallthrough [of i words U chaos rng s1 rng1 s2 rng2 s rng3] by blast
  then show "smurfify_step U chaos words i rng = Some ([s], i + 1, rng3)" .
  from h have "i < length words" by simp
  with step show "smurfify_loop U chaos words i result rng
            = smurfify_loop U chaos words (i + 1) (result @ [s]) rng3"
    by (rule smurfify_loop_step)
next
  assume h: "i + 2 < length words \<and> py_lower U (words ! (i + 1)) = py ''some''
      \<and> strip_nonword U (py_lower U (words ! i)) \<in> VERBS
      \<and> strip_nonword U (py_lower U (words ! (i + 2))) \<in> NOUNS"
  then have "\<exists>out rng'. smurfify_step U chaos words i rng = Some (out, i + 3, rng') \<and> length out = 3"
    using idiom_step [of i words U chaos rng] by (cases "draw_value (shd rng) < 1 / 2") simp_all
  then obtain out rng' where step: "smurfify_step U chaos words i rng = Some (out, i + 3, rng')"
    and len: "length out = 3"
    by blast
  from h have "i < length words" by simp
  with step have "smurfify_loop U chaos words i result rng
                = smurfify_loop U chaos words (i + 3) (result @ out) rng'"
    by (rule smurfify_loop_step)
  with step len
  show "\<exists>out rng'. smurfify_step U chaos words i rng = Some (out, i + 3, rng')
            \<and> length out = 3
            \<and> smurfify_loop U chaos words i result rng
                = smurfify_loop U chaos words (i + 3) (result @ out) rng'"
    by blast
qed

theorem C8_fallback_consumes_one_witness:
  "smurfify_word ascii_only CHAOS_CHANCE (py ''xyz'') (0 ## sconst 4503599627370496)
     = (py ''smurf'', sconst 4503599627370496)
   \<and> smurfify_word ascii_only CHAOS_CHANCE (py ''abc'') (sconst 4503599627370496)
     = (py ''abc'', sconst 4503599627370496)
   \<and> \<not> (is_smurfed ascii_only (py ''smurf'') \<and> is_smurfed ascii_only (py ''abc''))
   \<and> smurfify_step ascii_only CHAOS_CHANCE [py ''xyz'', py ''and'', py ''abc''] 0
        (0 ## sconst 4503599627370496)
      = Some ([py ''xyz''], 1, sconst 4503599627370496)
   \<and> smurfify_loop ascii_only CHAOS_CHANCE [py ''xyz'', py ''and'', py ''abc''] 0 []
        (0 ## sconst 4503599627370496)
      = smurfify_loop ascii_only CHAOS_CHANCE [py ''xyz'', py ''and'', py ''abc''] 1 [py ''xyz'']
          (sconst 4503599627370496)
   \<and> (\<exists>out rng'. smurfify_step ascii_only CHAOS_CHANCE [py ''fix'', py ''some'', py ''bug''] 0 (sconst 0)
          = Some (out, 3, rng') \<and> length out = 3)"
proof -
  let ?words = "[py ''xyz'', py ''and'', py ''abc'']"
  let ?half = "sconst (4503599627370496 :: draw)"
  have h1: "0 + 2 < length ?words" by simp
  have h2: "py_lower ascii_only (?words ! (0 + 1)) \<in> CONNECTORS"
    by (simp add: CONNECTORS_def py_str_defs char_class_defs)
  have h3: "smurfify_word ascii_only CHAOS_CHANCE (?words ! 0) (0 ## ?half) = (py ''smurf'', ?half)"
    by (simp add: word_eval draw_value_zero CHAOS_CHANCE_def)
  have h4: "smurfify_word ascii_only CHAOS_CHANCE (?words ! (0 + 2)) ?half = (py ''abc'', ?half)"
    by (simp add: word_eval draw_value_half CHAOS_CHANCE_def)
  have h5: "\<not> (is_smurfed ascii_only (py ''smurf'') \<and> is_smurfed ascii_only (py ''abc''))"
    by (simp add: is_smurfed_def py_str_defs char_class_defs)
  have h6: "smurfify_word ascii_only CHAOS_CHANCE (?words ! 0) ?half = (py ''xyz'', ?half)"
    by (simp add: word_eval draw_value_half CHAOS_CHANCE_def)
  have first: "smurfify_step ascii_only CHAOS_CHANCE ?words 0 (0 ## ?half) = Some ([py ''xyz''], 0 + 1, ?half)
      \<and> smurfify_loop ascii_only CHAOS_CHANCE ?words 0 [] (0 ## ?half)
          = smurfify_loop ascii_only CHAOS_CHANCE ?words (0 + 1) ([] @ [py ''xyz'']) ?half"
    using C8_fallback_consumes_one [of 0 ?words ascii_only CHAOS_CHANCE "0 ## ?half" "py ''smurf''" ?half
        "py ''abc''" ?half "py ''xyz''" ?half "[]"] h1 h2 h3 h4 h5 h6
    by blast
  let ?idiom = "[py ''fix'', py ''some'', py ''bug'']"
  have g1: "0 + 2 < length ?idiom" by simp
  have g2: "py_lower ascii_only (?idiom ! (0 + 1)) = py ''some''"
    by (simp add: py_str_defs char_class_defs)
  have g3: "strip_nonword ascii_only (py_lower ascii_only (?idiom ! 0)) \<in> VERBS"
    by (simp add: strip_nonword_def c_isbase_def VERBS_def py_str_defs char_class_defs)
  have g4: "strip_nonword ascii_only (py_lower ascii_only (?idiom ! (0 + 2))) \<in> NOUNS"
    by (simp add: strip_nonword_def c_isbase_def NOUNS_def py_str_defs char_class_defs)
  have second: "\<exists>out rng'. smurfify_step ascii_only CHAOS_CHANCE ?idiom 0 (sconst 0) = Some (out, 0 + 3, rng')
      \<and> length out = 3"
    using C8_fallback_consumes_one [of 0 ?idiom ascii_only CHAOS_CHANCE "sconst 0" _ _ _ _ _ _ "[]"]
      g1 g2 g3 g4
    by blast
  from first second h3 h4 h5 show ?thesis
    by simp
qed

text \<open>
  C10. Whether a word is smurfed is a prefix test on the lower-cased word after the
  transformation, whatever produced it. The word "smurfberry" is in no category set; when
  its chaos draw is not below the chaos chance it is returned as it stands, and it counts
  as smurfed all the same (as does "SmurfBerry"). So on the line "smurfberry and fix"
  the connector block finds a collision for every stream of draws, also when
  "smurfberry" was not replaced: when the second draw is below one half "fix" is
  emitted as it stands (the line is "smurfberry and fix", or "smurf and fix" when the
  chaos draw replaced the first word), and otherwise the line is "smurfberry and smurf":
  a connector between two tokens that both start with "smurf".
\<close>

theorem C10_smurfberry:
  "(is_smurfed U w \<longleftrightarrow> (\<exists>rest. py_lower U w = py ''smurf'' @ rest))
   \<and> py_lower U (py ''smurfberry'') \<notin> VERBS \<union> NOUNS \<union> ADJECTIVES \<union> EXCLAIMS
   \<and> smurfify_word U chaos (py ''smurfberry'') rng =
       (if draw_value (shd rng) < chaos then py ''smurf'' else py ''smurfberry'', stl rng)
   \<and> is_smurfed U (py ''smurfberry'')
   \<and> is_smurfed U (py ''SmurfBerry'')
   \<and> connector_rule U chaos [py ''smurfberry'', py ''and'', py ''fix''] 0 rng =
       Some (Some (if draw_value (shd (stl rng)) < 1 / 2
                   then [if draw_value (shd rng) < chaos then py ''smurf'' else py ''smurfberry'',
                         py ''and'', py ''fix'']
                   else [py ''smurfberry'', py ''and'', py ''smurf''], 3),
             stl (stl rng))
   \<and> smurfify_line U chaos (py ''smurfberry and fix'') rng =
       Some (if draw_value (shd (stl rng)) < 1 / 2
             then (if draw_value (shd rng) < chaos then py ''smurf and fix''
                   else py ''smurfberry and fix'')
             else py ''smurfberry and smurf'',
             stl (stl rng))
   \<and> smurfify_line U CHAOS_CHANCE (py ''smurfberry and fix'') (sconst 4503599627370496)
       = Some (py ''smurfberry and smurf'', sconst 4503599627370496)
   \<and> smurfify_line U CHAOS_CHANCE (py ''smurfberry and fix'') (4503599627370496 ## sconst 0)
       = Some (py ''smurfberry and fix'', sconst 0)"
proof -
  have test: "is_smurfed U w \<longleftrightarrow> (\<exists>rest. py_lower U w = py ''smurf'' @ rest)"
    by (simp only: is_smurfed_def py_startswith_iff)
  have unclassified:
    "py_lower U (py ''smurfberry'') \<notin> VERBS \<union> NOUNS \<union> ADJECTIVES \<union> EXCLAIMS"
    by (simp add: word_eval)
  have word: "smurfify_word U chaos (py ''smurfberry'') rng =
       (if draw_value (shd rng) < chaos then py ''smurf'' else py ''smurfberry'', stl rng)"
    by (simp add: word_eval)
  have smurfed: "is_smurfed U (py ''smurfberry'')" "is_smurfed U (py ''SmurfBerry'')"
    by (simp_all add: is_smurfed_def py_str_defs char_class_defs)
  have rule: "connector_rule U chaos [py ''smurfberry'', py ''and'', py ''fix''] 0 rng =
       Some (Some (if draw_value (shd (stl rng)) < 1 / 2
                   then [if draw_value (shd rng) < chaos then py ''smurf'' else py ''smurfberry'',
                         py ''and'', py ''fix'']
                   else [py ''smurfberry'', py ''and'', py ''smurf''], 3),
             stl (stl rng))"
    by (simp add: connector_rule_def py_index_def is_smurfed_def word_eval)
  have line: "\<And>chaos rng. smurfify_line U chaos (py ''smurfberry and fix'') rng =
       Some (if draw_value (shd (stl rng)) < 1 / 2
             then (if draw_value (shd rng) < chaos then py ''smurf and fix''
                   else py ''smurfberry and fix'')
             else py ''smurfberry and smurf'',
             stl (stl rng))"
    by (simp add: line_eval word_eval)
  have both: "smurfify_line U CHAOS_CHANCE (py ''smurfberry and fix'') (sconst 4503599627370496)
       = Some (py ''smurfberry and smurf'', sconst 4503599627370496)"
    using line [of CHAOS_CHANCE "sconst 4503599627370496"] by (simp add: draw_value_half)
  have reverted:
    "smurfify_line U CHAOS_CHANCE (py ''smurfberry and fix'') (4503599627370496 ## sconst 0)
       = Some (py ''smurfberry and fix'', sconst 0)"
    using line [of CHAOS_CHANCE "4503599627370496 ## sconst 0"]
    by (simp add: draw_value_half draw_value_zero CHAOS_CHANCE_def)
  from test unclassified word smurfed rule line [of chaos rng] both reverted show ?thesis
    by blast
qed

text \<open>
  C9. The line transformer is total: for every database, every chaos constant, every
  line and every state of the random source \<open>smurfify_line\<close> returns a line, no
  index is out of range and the loop ends. The empty line gives the empty line. The
  line returned is the join of as many tokens as the line has, and a token that does
  not match the pattern, or whose base has no alphabetic part between its hyphens, is
  at its place in the result as it was in the line (in a database that is sound for
  lower-casing, as Python's is). The emoji U+1F600, no word character, is such a token
  and a line of its own is returned as it is; so is "123".
\<close>

theorem C9_line_total:
  "(\<exists>out rng'. smurfify_line U chaos line rng = Some (out, rng'))
   \<and> smurfify_line U chaos [] rng = Some ([], rng)
   \<and> (case_sound U \<longrightarrow>
        (\<exists>result rng'. smurfify_loop U chaos (py_split line) 0 [] rng = Some (result, rng')
           \<and> smurfify_line U chaos line rng = Some (py_join (py '' '') result, rng')
           \<and> length result = length (py_split line)
           \<and> (\<forall>k<length (py_split line).
                 passes_unchanged U (py_split line ! k) \<longrightarrow> result ! k = py_split line ! k)))
   \<and> (\<not> c_isword U 128512 \<longrightarrow>
        passes_unchanged U [128512]
        \<and> smurfify_line U chaos [128512] rng = Some ([128512], rng))
   \<and> passes_unchanged U (py ''123'')
   \<and> smurfify_line U chaos (py ''123'') rng = Some (py ''123'', rng)"
proof -
  obtain res rng1 where loop: "smurfify_loop U chaos (py_split line) 0 [] rng = Some (res, rng1)"
    and len: "length res = length (py_split line)"
    and frame: "\<forall>k<length (py_split line). emitted_for U chaos (py_split line ! k) (res ! k)"
    using smurfify_loop_frame [of 0 "py_split line" "[]" U chaos rng] by auto
  have line: "smurfify_line U chaos line rng = Some (py_join (py '' '') res, rng1)"
    using loop by (simp add: smurfify_line_def)
  have total: "\<exists>out rng'. smurfify_line U chaos line rng = Some (out, rng')"
    using line by blast
  have empty: "smurfify_line U chaos [] rng = Some ([], rng)"
    by (simp add: line_eval)
  have kept: "res ! k = py_split line ! k"
    if sound: "case_sound U" and k: "k < length (py_split line)"
      and pass: "passes_unchanged U (py_split line ! k)" for k
  proof -
    have "py_split line ! k \<in> set (py_split line)"
      using k by simp
    then have "\<not> list_ex c_isspace (py_split line ! k)"
      using py_split_tokens by blast
    moreover have "emitted_for U chaos (py_split line ! k) (res ! k)"
      using frame k by blast
    ultimately show ?thesis
      using sound pass emitted_passes by blast
  qed
  have framed: "case_sound U \<longrightarrow>
        (\<exists>result rng'. smurfify_loop U chaos (py_split line) 0 [] rng = Some (result, rng')
           \<and> smurfify_line U chaos line rng = Some (py_join (py '' '') result, rng')
           \<and> length result = length (py_split line)
           \<and> (\<forall>k<length (py_split line).
                 passes_unchanged U (py_split line ! k) \<longrightarrow> result ! k = py_split line ! k))"
    using loop line len kept by blast
  have emoji: "\<not> c_isword U 128512 \<longrightarrow>
        passes_unchanged U [128512]
        \<and> smurfify_line U chaos [128512] rng = Some ([128512], rng)"
    by (simp add: passes_unchanged_def line_eval word_eval)
  have digits_pass: "passes_unchanged U (py ''123'')"
    by (simp add: passes_unchanged_def word_eval)
  have digits: "smurfify_line U chaos (py ''123'') rng = Some (py ''123'', rng)"
    by (simp add: line_eval word_eval)
  from total empty framed emoji digits_pass digits show ?thesis
    by (intro conjI)
qed

theorem C9_line_total_witness:
  "case_sound kelvin_sign \<and> \<not> c_isword kelvin_sign 128512
   \<and> py_split ([128512] @ py '' AS'' @ [8490] @ py '' and 123'')
     = [[128512], py ''AS'' @ [8490], py ''and'', py ''123'']
   \<and> passes_unchanged kelvin_sign [128512] \<and> passes_unchanged kelvin_sign (py ''123'')
   \<and> \<not> passes_unchanged kelvin_sign (py ''AS'' @ [8490])
   \<and> (\<exists>result rng'.
         smurfify_line kelvin_sign CHAOS_CHANCE
             ([128512] @ py '' AS'' @ [8490] @ py '' and 123'') (sconst 0)
           = Some (py_join (py '' '') result, rng')
         \<and> length result = 4 \<and> result ! 0 = [128512] \<and> result ! 3 = py ''123'')
   \<and> smurfify_line kelvin_sign CHAOS_CHANCE [128512] (sconst 0) = Some ([128512], sconst 0)"
proof -
  let ?line = "[128512] @ py '' AS'' @ [8490] @ py '' and 123''"
  have sound: "case_sound kelvin_sign"
    by (rule case_sound_kelvin_sign)
  have no_word: "\<not> c_isword kelvin_sign 128512"
    by (simp add: c_isword_def kelvin_sign_def)
  have tokens: "py_split ?line = [[128512], py ''AS'' @ [8490], py ''and'', py ''123'']"
    by (simp add: py_split.simps c_isspace_def)
  have p0: "passes_unchanged kelvin_sign [128512]"
    by (simp add: passes_unchanged_def word_eval kelvin_sign_def)
  have p3: "passes_unchanged kelvin_sign (py ''123'')"
    by (simp add: passes_unchanged_def word_eval)
  have p1: "\<not> passes_unchanged kelvin_sign (py ''AS'' @ [8490])"
    by (simp add: passes_unchanged_def word_eval kelvin_sign_def)
  note fact = C9_line_total [of kelvin_sign CHAOS_CHANCE ?line "sconst 0"]
  from fact sound obtain result rng'
    where line: "smurfify_line kelvin_sign CHAOS_CHANCE ?line (sconst 0)
                   = Some (py_join (py '' '') result, rng')"
      and len: "length result = length (py_split ?line)"
      and kept: "\<forall>k<length (py_split ?line).
                   passes_unchanged kelvin_sign (py_split ?line ! k)
                   \<longrightarrow> result ! k = py_split ?line ! k"
    by blast
  have l4: "length result = 4"
    using len tokens by simp
  have r0: "result ! 0 = [128512]"
    using kept [rule_format, of 0] tokens p0 by simp
  have r3: "result ! 3 = py ''123''"
    using kept [rule_format, of 3] tokens p3 by simp
  have single: "smurfify_line kelvin_sign CHAOS_CHANCE [128512] (sconst 0)
                  = Some ([128512], sconst 0)"
    using fact no_word by blast
  from sound no_word tokens p0 p3 p1 line l4 r0 r3 single show ?thesis
    by blast
qed

text \<open>
  A base with a hyphen that is not alphabetic as a whole is still transformed part by
  part: "fix-123" matches the pattern with base "fix-123", the base is not alphabetic,
  and the line returned is "smurf-123", since the part "fix" is a verb.
\<close>

theorem C9_hyphen_counterexample:
  "py_split (py ''fix-123'') = [py ''fix-123'']
   \<and> re_match_word ascii_only (py ''fix-123'') = Some (py ''fix-123'', [])
   \<and> \<not> py_isalpha ascii_only (py ''fix-123'')
   \<and> smurfify_line ascii_only CHAOS_CHANCE (py ''fix-123'') (sconst 0)
     = Some (py ''smurf-123'', sconst 0)"
  by (simp add: line_eval word_eval)

end
